theory Spec2Isabelle
  imports Complex_Main
begin

section \<open>Data model of \<^verbatim>\<open>chk_demension.py\<close>\<close>

text \<open>
  Coordinates are Python floats. They are idealised as real numbers: arithmetic is exact
  and rounding is not modelled. What is modelled of the float operations is where they
  raise: \<^verbatim>\<open>x ** 2\<close> raises \<^verbatim>\<open>OverflowError\<close> when the square leaves the range of a
  double, \<^verbatim>\<open>a / b\<close> raises \<^verbatim>\<open>ZeroDivisionError\<close> when \<open>b\<close> is zero, \<^verbatim>\<open>math.acos\<close> and
  \<^verbatim>\<open>math.sqrt\<close> raise \<^verbatim>\<open>ValueError\<close> outside their domain, and indexing a list out of
  range raises \<^verbatim>\<open>IndexError\<close>. The product \<^verbatim>\<open>dx*dx\<close> does not raise in Python (it
  yields \<^verbatim>\<open>inf\<close>) and a sum of two such products is never negative, so \<^verbatim>\<open>length\<close> and
  \<^verbatim>\<open>distance\<close> have no error branch.
\<close>

datatype py_error = OverflowError | ZeroDivisionError | ValueError | IndexError

definition bind_py :: "py_error + 'a \<Rightarrow> ('a \<Rightarrow> py_error + 'b) \<Rightarrow> py_error + 'b" where
  "bind_py m f = (case m of Inl e \<Rightarrow> Inl e | Inr v \<Rightarrow> f v)"

text \<open>The largest finite double, \<open>(2 - 2\<^sup>-\<^sup>5\<^sup>2) * 2\<^sup>1\<^sup>0\<^sup>2\<^sup>3\<close>.\<close>

definition DBL_MAX :: real where
  "DBL_MAX = (2 ^ 53 - 1) * 2 ^ 971"

definition py_pow2 :: "real \<Rightarrow> py_error + real" where
  "py_pow2 a = (if a * a > DBL_MAX then Inl OverflowError else Inr (a * a))"

definition py_div :: "real \<Rightarrow> real \<Rightarrow> py_error + real" where
  "py_div a b = (if b = 0 then Inl ZeroDivisionError else Inr (a / b))"

definition py_sqrt :: "real \<Rightarrow> py_error + real" where
  "py_sqrt a = (if a < 0 then Inl ValueError else Inr (sqrt a))"

definition py_acos :: "real \<Rightarrow> py_error + real" where
  "py_acos c = (if - 1 \<le> c \<and> c \<le> 1 then Inr (arccos c) else Inl ValueError)"

definition degrees :: "real \<Rightarrow> real" where
  "degrees r = r * 180 / pi"

text \<open>Class \<^verbatim>\<open>Point\<close>; its fields \<^verbatim>\<open>x\<close> and \<^verbatim>\<open>y\<close> are the selectors \<open>px\<close> and \<open>py\<close>.\<close>

datatype point = Point (px: real) (py: real)

text \<open>
  Class \<^verbatim>\<open>Line\<close>. The provenance attributes (handle, layer, color, lineweight, linetype,
  id) are carried unchanged and read by the report only. \<^verbatim>\<open>Line\<close> defines neither
  \<^verbatim>\<open>__eq__\<close> nor \<^verbatim>\<open>__hash__\<close>, so two lines are the same segment when they are the same
  object. The list \<^verbatim>\<open>lines\<close> built by \<^verbatim>\<open>extract_lines\<close> holds one fresh object per entry:
  a reference to a \<^verbatim>\<open>Line\<close> object is modelled as its index in that list.
\<close>

record line =
  start_point :: point
  end_point :: point

text \<open>The strings \<^verbatim>\<open>'start'\<close>, \<^verbatim>\<open>'end'\<close> and \<^verbatim>\<open>'both'\<close> used as an enumeration.\<close>

datatype direction = Start | End | Both

text \<open>
  Class \<^verbatim>\<open>Arrow\<close>: \<open>shaft\<close>, \<open>left_barb\<close> and \<open>right_barb\<close> are references into \<^verbatim>\<open>lines\<close>.
  The field \<^verbatim>\<open>id\<close> is \<^verbatim>\<open>None\<close> at construction and later the string \<^verbatim>\<open>ARWnnn\<close>; the
  model keeps the number.
\<close>

record arrow =
  shaft :: nat
  left_barb :: nat
  right_barb :: nat
  tip_point :: point
  direction :: direction
  arrow_id :: "nat option"

text \<open>
  Class \<^verbatim>\<open>TextEntity\<close> (styling attributes are read by the report only);
  \<open>matched_arrows\<close> holds references to leaders, as indices in \<^verbatim>\<open>arrow_leaders\<close>.
\<close>

record text_entity =
  content :: string
  position :: point
  matched_arrows :: "nat list"

text \<open>
  Class \<^verbatim>\<open>ArrowLeader\<close>: \<open>matched_text\<close> is a reference into \<^verbatim>\<open>texts\<close>,
  \<open>line_chain\<close> and \<open>matched_boundaries\<close> hold references into \<^verbatim>\<open>lines\<close>.
\<close>

record arrow_leader =
  arrow :: arrow
  leader_position :: point
  line_chain :: "nat list"
  matched_text :: "nat option"
  matched_boundaries :: "nat list"
  leader_id :: "nat option"

text \<open>The dictionary \<^verbatim>\<open>CONFIG\<close>, one record per section.\<close>

record arrow_detection_config =
  tip_point_tolerance :: real
  barb_length_diff_max :: real
  arrow_angle_max :: real
  barb_angle_diff_max :: real

record arrow_connected_line_config =
  max_gap :: real
  angle_tolerance :: real

record leader_arrow_matching_config =
  max_distance :: real

record leader_boundary_matching_config =
  max_distance_to_arrow :: real
  perpendicular_angle_min :: real
  perpendicular_angle_max :: real

record config =
  ARROW_DETECTION :: arrow_detection_config
  ARROW_CONNECTED_LINE :: arrow_connected_line_config
  LEADER_ARROW_MATCHING :: leader_arrow_matching_config
  LEADER_BOUNDARY_MATCHING :: leader_boundary_matching_config

definition CONFIG :: config where
  "CONFIG = \<lparr>
     ARROW_DETECTION = \<lparr> tip_point_tolerance = 0.1, barb_length_diff_max = 0.2,
                         arrow_angle_max = 75.0, barb_angle_diff_max = 0.5 \<rparr>,
     ARROW_CONNECTED_LINE = \<lparr> max_gap = 3.0, angle_tolerance = 5.0 \<rparr>,
     LEADER_ARROW_MATCHING = \<lparr> max_distance = 10.0 \<rparr>,
     LEADER_BOUNDARY_MATCHING = \<lparr> max_distance_to_arrow = 5.0,
                                  perpendicular_angle_min = 89.5,
                                  perpendicular_angle_max = 90.5 \<rparr> \<rparr>"

section \<open>Utility functions\<close>

definition length_line :: "line \<Rightarrow> real" where
  "length_line line =
     (let dx = px (end_point line) - px (start_point line);
          dy = py (end_point line) - py (start_point line)
      in sqrt (dx * dx + dy * dy))"

definition distance :: "point \<Rightarrow> point \<Rightarrow> real" where
  "distance point1 point2 =
     (let dx = px point2 - px point1;
          dy = py point2 - py point1
      in sqrt (dx * dx + dy * dy))"

definition direction_vector :: "line \<Rightarrow> real \<times> real" where
  "direction_vector line =
     (px (end_point line) - px (start_point line), py (end_point line) - py (start_point line))"

definition dot_product :: "real \<times> real \<Rightarrow> real \<times> real \<Rightarrow> real" where
  "dot_product v1 v2 = fst v1 * fst v2 + snd v1 * snd v2"

text \<open>
  \<^verbatim>\<open>math.sqrt(v[0]**2 + v[1]**2)\<close>: both squares may raise \<^verbatim>\<open>OverflowError\<close>, the
  square root of their sum may not (see \<open>py_sqrt_sum\<close> below).
\<close>

definition magnitude :: "real \<times> real \<Rightarrow> py_error + real" where
  "magnitude v =
     bind_py (py_pow2 (fst v)) (\<lambda>a.
     bind_py (py_pow2 (snd v)) (\<lambda>b.
     py_sqrt (a + b)))"

definition angle_between :: "line \<Rightarrow> line \<Rightarrow> py_error + real" where
  "angle_between line1 line2 =
     (let v1 = direction_vector line1;
          v2 = direction_vector line2;
          dot = dot_product v1 v2
      in bind_py (magnitude v1) (\<lambda>mag1.
         bind_py (magnitude v2) (\<lambda>mag2.
         if mag1 = 0 \<or> mag2 = 0 then Inr 0
         else bind_py (py_div dot (mag1 * mag2)) (\<lambda>cos_angle.
              bind_py (py_acos (max (- 1) (min 1 cos_angle))) (\<lambda>angle_rad.
              Inr (degrees angle_rad))))))"

definition are_lines_parallel :: "line \<Rightarrow> line \<Rightarrow> real \<Rightarrow> py_error + bool" where
  "are_lines_parallel line1 line2 angle_threshold =
     bind_py (angle_between line1 line2) (\<lambda>angle.
     Inr (angle < angle_threshold \<or> angle > 180 - angle_threshold))"

definition get_leader_position :: "line \<Rightarrow> direction \<Rightarrow> point" where
  "get_leader_position arrow_line arrow_location =
     (case arrow_location of
        End \<Rightarrow> start_point arrow_line
      | Start \<Rightarrow> end_point arrow_line
      | Both \<Rightarrow> Point ((px (start_point arrow_line) + px (end_point arrow_line)) / 2)
                      ((py (start_point arrow_line) + py (end_point arrow_line)) / 2))"

section \<open>Arrow detection\<close>

text \<open>
  \<^verbatim>\<open>min(distances, key=lambda x: x[0])\<close>: Python keeps the first element whose key is
  minimal, replacing the current best only by a strictly smaller key.
\<close>

fun min_by_key :: "real \<times> 'a \<Rightarrow> (real \<times> 'a) list \<Rightarrow> real \<times> 'a" where
  "min_by_key best [] = best"
| "min_by_key best (c # cs) = min_by_key (if fst c < fst best then c else best) cs"

text \<open>
  One entry \<^verbatim>\<open>{'start': [], 'end': []}\<close> of \<^verbatim>\<open>meeting_lines\<close>. An element \<open>(j, e)\<close> says
  that line \<open>j\<close> meets with its endpoint \<open>e\<close>; the tags \<^verbatim>\<open>'i_start'\<close>, \<^verbatim>\<open>'j_start'\<close> and
  \<^verbatim>\<open>'start'\<close> are all \<open>Start\<close>, and likewise for \<open>End\<close>.
\<close>

record meeting =
  at_start :: "(nat \<times> direction) list"
  at_end :: "(nat \<times> direction) list"

text \<open>
  The body of the inner loop of the second pass (lines 628 to 660), for the pair
  \<open>(i, j)\<close>; \<open>m\<close> is \<^verbatim>\<open>meeting_lines[i]\<close>. Both indices come from \<^verbatim>\<open>enumerate(lines)\<close>.
\<close>

definition meeting_step ::
  "real \<Rightarrow> line list \<Rightarrow> real list \<Rightarrow> nat \<Rightarrow> meeting \<Rightarrow> nat \<Rightarrow> py_error + meeting" where
  "meeting_step tip_tolerance lines line_lengths i m j =
     (let line_i = lines ! i; line_j = lines ! j in
      if i = j then Inr m
      else if line_lengths ! j \<ge> line_lengths ! i then Inr m
      else bind_py (are_lines_parallel line_i line_j 5.0) (\<lambda>parallel.
        if parallel then Inr m
        else
          let (min_dist, i_point, j_point) =
                min_by_key
                  (distance (start_point line_i) (start_point line_j), Start, Start)
                  [(distance (start_point line_i) (end_point line_j), Start, End),
                   (distance (end_point line_i) (start_point line_j), End, Start),
                   (distance (end_point line_i) (end_point line_j), End, End)]
          in if min_dist \<le> tip_tolerance then
               (if i_point = Start then Inr (m\<lparr>at_start := at_start m @ [(j, j_point)]\<rparr>)
                else Inr (m\<lparr>at_end := at_end m @ [(j, j_point)]\<rparr>))
             else Inr m))"

fun meeting_row ::
  "real \<Rightarrow> line list \<Rightarrow> real list \<Rightarrow> nat \<Rightarrow> nat list \<Rightarrow> meeting \<Rightarrow> py_error + meeting" where
  "meeting_row tip_tolerance lines line_lengths i [] m = Inr m"
| "meeting_row tip_tolerance lines line_lengths i (j # js) m =
     (case meeting_step tip_tolerance lines line_lengths i m j of
        Inl e \<Rightarrow> Inl e
      | Inr m' \<Rightarrow> meeting_row tip_tolerance lines line_lengths i js m')"

fun meeting_pass ::
  "real \<Rightarrow> line list \<Rightarrow> real list \<Rightarrow> nat list \<Rightarrow> py_error + meeting list" where
  "meeting_pass tip_tolerance lines line_lengths [] = Inr []"
| "meeting_pass tip_tolerance lines line_lengths (i # rest) =
     (case meeting_row tip_tolerance lines line_lengths i [0 ..< length lines]
             \<lparr>at_start = [], at_end = []\<rparr> of
        Inl e \<Rightarrow> Inl e
      | Inr m \<Rightarrow>
          (case meeting_pass tip_tolerance lines line_lengths rest of
             Inl e \<Rightarrow> Inl e
           | Inr ms \<Rightarrow> Inr (m # ms)))"

text \<open>
  The index pairs \<open>(idx1, idx2)\<close> of the two nested \<^verbatim>\<open>range\<close> loops of
  \<^verbatim>\<open>check_symmetrical_lines\<close>, in the order the loops visit them.
\<close>

definition index_pairs :: "nat \<Rightarrow> (nat \<times> nat) list" where
  "index_pairs n = concat (map (\<lambda>idx1. map (Pair idx1) [idx1 + 1 ..< n]) [0 ..< n])"

fun check_pairs ::
  "line \<Rightarrow> (nat \<times> direction) list \<Rightarrow> line list \<Rightarrow> real list \<Rightarrow> nat set \<Rightarrow>
   arrow_detection_config \<Rightarrow> (nat \<times> nat) list \<Rightarrow> py_error + (nat \<times> nat) option" where
  "check_pairs shaft_line meeting_line_indices lines line_lengths used_barbs arrow_config [] =
     Inr None"
| "check_pairs shaft_line meeting_line_indices lines line_lengths used_barbs arrow_config
     (p # ps) =
     (let line_j_idx = fst (meeting_line_indices ! fst p);
          line_k_idx = fst (meeting_line_indices ! snd p)
      in
      if line_j_idx \<in> used_barbs \<or> line_k_idx \<in> used_barbs then
        check_pairs shaft_line meeting_line_indices lines line_lengths used_barbs arrow_config ps
      else if length lines \<le> line_j_idx \<or> length lines \<le> line_k_idx
              \<or> length line_lengths \<le> line_j_idx \<or> length line_lengths \<le> line_k_idx then
        Inl IndexError
      else if \<bar>line_lengths ! line_j_idx - line_lengths ! line_k_idx\<bar>
                > barb_length_diff_max arrow_config then
        check_pairs shaft_line meeting_line_indices lines line_lengths used_barbs arrow_config ps
      else
        (case angle_between shaft_line (lines ! line_j_idx) of
           Inl e \<Rightarrow> Inl e
         | Inr angle_j \<Rightarrow>
             (case angle_between shaft_line (lines ! line_k_idx) of
                Inl e \<Rightarrow> Inl e
              | Inr angle_k \<Rightarrow>
                  if angle_j > arrow_angle_max arrow_config
                     \<or> angle_k > arrow_angle_max arrow_config then
                    check_pairs shaft_line meeting_line_indices lines line_lengths used_barbs
                      arrow_config ps
                  else if \<bar>angle_j - angle_k\<bar> > barb_angle_diff_max arrow_config then
                    check_pairs shaft_line meeting_line_indices lines line_lengths used_barbs
                      arrow_config ps
                  else Inr (Some (line_j_idx, line_k_idx)))))"

definition check_symmetrical_lines ::
  "line \<Rightarrow> (nat \<times> direction) list \<Rightarrow> line list \<Rightarrow> real list \<Rightarrow> nat set \<Rightarrow>
   arrow_detection_config \<Rightarrow> py_error + (nat \<times> nat) option" where
  "check_symmetrical_lines shaft_line meeting_line_indices lines line_lengths used_barbs
     arrow_config =
     (if length meeting_line_indices < 2 then Inr None
      else check_pairs shaft_line meeting_line_indices lines line_lengths used_barbs
             arrow_config (index_pairs (length meeting_line_indices)))"

text \<open>
  One of the two blocks of the third pass (lines 685 to 711 for the start point, lines 714
  to 740 for the end point): they differ only in the meeting list, the tip point and the
  direction. The state is the pair of \<^verbatim>\<open>arrows\<close> and \<^verbatim>\<open>used_barbs\<close>.
\<close>

definition classify_endpoint ::
  "line list \<Rightarrow> real list \<Rightarrow> arrow_detection_config \<Rightarrow> nat \<Rightarrow> (nat \<times> direction) list \<Rightarrow>
   point \<Rightarrow> direction \<Rightarrow> arrow list \<times> nat set \<Rightarrow> py_error + arrow list \<times> nat set" where
  "classify_endpoint lines line_lengths arrow_config i meeting_line_indices tip dir st =
     (if length meeting_line_indices \<ge> 2 then
        (case check_symmetrical_lines (lines ! i) meeting_line_indices lines line_lengths
                (snd st) arrow_config of
           Inl e \<Rightarrow> Inl e
         | Inr None \<Rightarrow> Inr st
         | Inr (Some (barb1_idx, barb2_idx)) \<Rightarrow>
             Inr (fst st @ [\<lparr>shaft = i, left_barb = barb1_idx, right_barb = barb2_idx,
                              tip_point = tip, direction = dir, arrow_id = None\<rparr>],
                  insert barb2_idx (insert barb1_idx (snd st))))
      else Inr st)"

definition classify_step ::
  "line list \<Rightarrow> real list \<Rightarrow> meeting list \<Rightarrow> arrow_detection_config \<Rightarrow> nat \<Rightarrow>
   arrow list \<times> nat set \<Rightarrow> py_error + arrow list \<times> nat set" where
  "classify_step lines line_lengths meeting_lines arrow_config i st =
     (case classify_endpoint lines line_lengths arrow_config i
             (at_start (meeting_lines ! i)) (start_point (lines ! i)) Start st of
        Inl e \<Rightarrow> Inl e
      | Inr st' \<Rightarrow>
          classify_endpoint lines line_lengths arrow_config i
            (at_end (meeting_lines ! i)) (end_point (lines ! i)) End st')"

fun classify_pass ::
  "line list \<Rightarrow> real list \<Rightarrow> meeting list \<Rightarrow> arrow_detection_config \<Rightarrow> nat list \<Rightarrow>
   arrow list \<times> nat set \<Rightarrow> py_error + arrow list \<times> nat set" where
  "classify_pass lines line_lengths meeting_lines arrow_config [] st = Inr st"
| "classify_pass lines line_lengths meeting_lines arrow_config (i # rest) st =
     (case classify_step lines line_lengths meeting_lines arrow_config i st of
        Inl e \<Rightarrow> Inl e
      | Inr st' \<Rightarrow> classify_pass lines line_lengths meeting_lines arrow_config rest st')"

text \<open>\<^verbatim>\<open>for i, arrow in enumerate(arrows, 1): arrow.id = f"ARW{i:03d}"\<close>\<close>

definition assign_arrow_ids :: "arrow list \<Rightarrow> arrow list" where
  "assign_arrow_ids arrows =
     map (\<lambda>(i, a). a\<lparr>arrow_id := Some i\<rparr>) (zip [1 ..< Suc (length arrows)] arrows)"

definition detect_arrows_in_drawing :: "line list \<Rightarrow> config \<Rightarrow> py_error + arrow list" where
  "detect_arrows_in_drawing lines config =
     (let arrow_config = ARROW_DETECTION config;
          tip_tolerance = tip_point_tolerance arrow_config;
          line_lengths = map length_line lines
      in case meeting_pass tip_tolerance lines line_lengths [0 ..< length lines] of
           Inl e \<Rightarrow> Inl e
         | Inr meeting_lines \<Rightarrow>
             (case classify_pass lines line_lengths meeting_lines arrow_config
                     [0 ..< length lines] ([], {}) of
                Inl e \<Rightarrow> Inl e
              | Inr st \<Rightarrow> Inr (assign_arrow_ids (fst st))))"

section \<open>Leader assembly\<close>

text \<open>
  \<^verbatim>\<open>create_arrow_leaders(arrows)\<close> reads the shaft object of every arrow; with references as
  indices the list \<^verbatim>\<open>lines\<close> they point into is a parameter.
\<close>

definition assign_leader_ids :: "arrow_leader list \<Rightarrow> arrow_leader list" where
  "assign_leader_ids arrow_leaders =
     map (\<lambda>(i, l). l\<lparr>leader_id := Some i\<rparr>)
       (zip [1 ..< Suc (length arrow_leaders)] arrow_leaders)"

definition create_arrow_leaders :: "line list \<Rightarrow> arrow list \<Rightarrow> arrow_leader list" where
  "create_arrow_leaders lines arrows =
     assign_leader_ids
       (map (\<lambda>a. \<lparr>arrow = a,
                  leader_position = get_leader_position (lines ! shaft a) (direction a),
                  line_chain = [shaft a],
                  matched_text = None,
                  matched_boundaries = [],
                  leader_id = None\<rparr>) arrows)"

section \<open>Text matching\<close>

text \<open>
  The body of the inner loop of \<^verbatim>\<open>match_texts_to_arrows\<close>. The pair of \<^verbatim>\<open>min_dist\<close> and
  \<^verbatim>\<open>closest_text\<close> starts as \<^verbatim>\<open>(float('inf'), None)\<close>, which is \<open>None\<close> here; after an
  update it is \<open>Some (min_dist, t)\<close> with \<open>t\<close> the reference to the text.
\<close>

definition closest_step ::
  "point \<Rightarrow> real \<Rightarrow> text_entity list \<Rightarrow> (real \<times> nat) option \<Rightarrow> nat \<Rightarrow> (real \<times> nat) option" where
  "closest_step pos max_dist texts best t =
     (let dist = distance pos (position (texts ! t)) in
      if dist < max_dist \<and> (case best of None \<Rightarrow> True | Some (min_dist, c) \<Rightarrow> dist < min_dist)
      then Some (dist, t) else best)"

definition find_closest_text ::
  "point \<Rightarrow> real \<Rightarrow> text_entity list \<Rightarrow> (real \<times> nat) option" where
  "find_closest_text pos max_dist texts =
     foldl (closest_step pos max_dist texts) None [0 ..< length texts]"

text \<open>The body of the outer loop, for the leader with index \<open>k\<close>.\<close>

definition match_leader ::
  "real \<Rightarrow> arrow_leader list \<times> text_entity list \<Rightarrow> nat \<Rightarrow>
   arrow_leader list \<times> text_entity list" where
  "match_leader max_dist st k =
     (let arrow_leaders = fst st; texts = snd st in
      case find_closest_text (leader_position (arrow_leaders ! k)) max_dist texts of
        None \<Rightarrow> st
      | Some (min_dist, t) \<Rightarrow>
          (arrow_leaders[k := (arrow_leaders ! k)\<lparr>matched_text := Some t\<rparr>],
           texts[t := (texts ! t)\<lparr>matched_arrows := matched_arrows (texts ! t) @ [k]\<rparr>]))"

definition match_texts_to_arrows ::
  "arrow_leader list \<Rightarrow> text_entity list \<Rightarrow> config \<Rightarrow>
   arrow_leader list \<times> text_entity list" where
  "match_texts_to_arrows arrow_leaders texts config =
     foldl (match_leader (max_distance (LEADER_ARROW_MATCHING config)))
       (arrow_leaders, texts) [0 ..< length arrow_leaders]"

section \<open>Boundary line detection\<close>

text \<open>The set \<^verbatim>\<open>arrow_lines\<close> of the segments used by some arrow (lines 831 to 835).\<close>

definition arrow_lines_of :: "arrow_leader list \<Rightarrow> nat set" where
  "arrow_lines_of arrow_leaders =
     set (concat (map (\<lambda>l. [shaft (arrow l), left_barb (arrow l), right_barb (arrow l)])
                      arrow_leaders))"

text \<open>
  The body of the inner loop (lines 843 to 861) for the line with index \<open>j\<close>; the state is
  the pair of the leader's \<^verbatim>\<open>matched_boundaries\<close> and of \<^verbatim>\<open>boundary_lines\<close>.
\<close>

definition boundary_step ::
  "line list \<Rightarrow> leader_boundary_matching_config \<Rightarrow> nat set \<Rightarrow> point \<Rightarrow> line \<Rightarrow>
   nat list \<times> nat list \<Rightarrow> nat \<Rightarrow> py_error + nat list \<times> nat list" where
  "boundary_step lines boundary_config arrow_lines arrow_tip arrow_shaft st j =
     (if j \<in> arrow_lines then Inr st
      else
        let line = lines ! j;
            dist_to_start = distance arrow_tip (start_point line);
            dist_to_end = distance arrow_tip (end_point line);
            min_dist_to_line = min dist_to_start dist_to_end
        in if min_dist_to_line > max_distance_to_arrow boundary_config then Inr st
           else
             (case angle_between arrow_shaft line of
                Inl e \<Rightarrow> Inl e
              | Inr angle \<Rightarrow>
                  if perpendicular_angle_min boundary_config \<le> angle
                     \<and> angle \<le> perpendicular_angle_max boundary_config
                  then Inr (fst st @ [j], snd st @ [j])
                  else Inr st))"

fun boundary_row ::
  "line list \<Rightarrow> leader_boundary_matching_config \<Rightarrow> nat set \<Rightarrow> point \<Rightarrow> line \<Rightarrow>
   nat list \<Rightarrow> nat list \<times> nat list \<Rightarrow> py_error + nat list \<times> nat list" where
  "boundary_row lines boundary_config arrow_lines arrow_tip arrow_shaft [] st = Inr st"
| "boundary_row lines boundary_config arrow_lines arrow_tip arrow_shaft (j # js) st =
     (case boundary_step lines boundary_config arrow_lines arrow_tip arrow_shaft st j of
        Inl e \<Rightarrow> Inl e
      | Inr st' \<Rightarrow>
          boundary_row lines boundary_config arrow_lines arrow_tip arrow_shaft js st')"

text \<open>
  The outer loop over the leaders; the state is the pair of \<^verbatim>\<open>arrow_leaders\<close> and
  \<^verbatim>\<open>boundary_lines\<close>.
\<close>

fun boundary_pass ::
  "line list \<Rightarrow> leader_boundary_matching_config \<Rightarrow> nat set \<Rightarrow> nat list \<Rightarrow>
   arrow_leader list \<times> nat list \<Rightarrow> py_error + arrow_leader list \<times> nat list" where
  "boundary_pass lines boundary_config arrow_lines [] st = Inr st"
| "boundary_pass lines boundary_config arrow_lines (k # ks) st =
     (let leader = fst st ! k;
          arrow_tip = tip_point (arrow leader);
          arrow_shaft = lines ! shaft (arrow leader)
      in case boundary_row lines boundary_config arrow_lines arrow_tip arrow_shaft
                [0 ..< length lines] (matched_boundaries leader, snd st) of
           Inl e \<Rightarrow> Inl e
         | Inr r \<Rightarrow>
             boundary_pass lines boundary_config arrow_lines ks
               ((fst st)[k := leader\<lparr>matched_boundaries := fst r\<rparr>], snd r))"

text \<open>
  \<^verbatim>\<open>detect_boundary_lines\<close> returns \<^verbatim>\<open>boundary_lines\<close> and mutates the leaders; the model
  returns both.
\<close>

definition detect_boundary_lines ::
  "arrow_leader list \<Rightarrow> line list \<Rightarrow> config \<Rightarrow> py_error + arrow_leader list \<times> nat list" where
  "detect_boundary_lines arrow_leaders lines config =
     boundary_pass lines (LEADER_BOUNDARY_MATCHING config) (arrow_lines_of arrow_leaders)
       [0 ..< length arrow_leaders] (arrow_leaders, [])"

section \<open>The two orders of the matching passes\<close>

text \<open>
  Steps 53 and 54 of \<^verbatim>\<open>main\<close>: boundary detection, then text matching. The result is the
  final leaders, texts and boundary lines, or the exception that ended the run.
\<close>

definition main_steps_53_54 ::
  "arrow_leader list \<Rightarrow> line list \<Rightarrow> text_entity list \<Rightarrow> config \<Rightarrow>
   py_error + arrow_leader list \<times> text_entity list \<times> nat list" where
  "main_steps_53_54 arrow_leaders lines texts config =
     (case detect_boundary_lines arrow_leaders lines config of
        Inl e \<Rightarrow> Inl e
      | Inr b \<Rightarrow>
          (let t = match_texts_to_arrows (fst b) texts config
           in Inr (fst t, snd t, snd b)))"

text \<open>The same two calls in the other order: text matching, then boundary detection.\<close>

definition text_then_boundary ::
  "arrow_leader list \<Rightarrow> line list \<Rightarrow> text_entity list \<Rightarrow> config \<Rightarrow>
   py_error + arrow_leader list \<times> text_entity list \<times> nat list" where
  "text_then_boundary arrow_leaders lines texts config =
     (let t = match_texts_to_arrows arrow_leaders texts config
      in case detect_boundary_lines (fst t) lines config of
           Inl e \<Rightarrow> Inl e
         | Inr b \<Rightarrow> Inr (fst b, snd t, snd b))"

section \<open>Auxiliary notions for the statements\<close>

definition no_overflow :: "line \<Rightarrow> bool" where
  "no_overflow line =
     (let v = direction_vector line
      in fst v * fst v \<le> DBL_MAX \<and> snd v * snd v \<le> DBL_MAX)"

definition angle_value :: "line \<Rightarrow> line \<Rightarrow> real" where
  "angle_value line1 line2 =
     (let v1 = direction_vector line1;
          v2 = direction_vector line2;
          mag1 = sqrt (fst v1 * fst v1 + snd v1 * snd v1);
          mag2 = sqrt (fst v2 * fst v2 + snd v2 * snd v2)
      in if mag1 = 0 \<or> mag2 = 0 then 0
         else degrees (arccos (max (- 1) (min 1 (dot_product v1 v2 / (mag1 * mag2))))))"

definition endpoint :: "direction \<Rightarrow> line \<Rightarrow> point" where
  "endpoint e line = (if e = Start then start_point line else end_point line)"

definition meets_at ::
  "real \<Rightarrow> line list \<Rightarrow> real list \<Rightarrow> nat \<Rightarrow> direction \<Rightarrow> nat \<times> direction \<Rightarrow> bool" where
  "meets_at tol lines lens i ip e =
     (fst e \<noteq> i \<and> lens ! fst e < lens ! i \<and>
      are_lines_parallel (lines ! i) (lines ! fst e) 5 = Inr False \<and>
      distance (endpoint ip (lines ! i)) (endpoint (snd e) (lines ! fst e)) \<le> tol)"

definition row_ok ::
  "real \<Rightarrow> line list \<Rightarrow> real list \<Rightarrow> nat \<Rightarrow> nat set \<Rightarrow> meeting \<Rightarrow> bool" where
  "row_ok tol lines lens i J m =
     (list_all (meets_at tol lines lens i Start) (at_start m) \<and>
      list_all (meets_at tol lines lens i End) (at_end m) \<and>
      fst ` set (at_start m) \<subseteq> J \<and> fst ` set (at_end m) \<subseteq> J \<and>
      distinct (map fst (at_start m)) \<and> distinct (map fst (at_end m)))"

definition barbs_of :: "arrow list \<Rightarrow> nat list" where
  "barbs_of arrows = concat (map (\<lambda>a. [left_barb a, right_barb a]) arrows)"

definition symmetric_pair ::
  "arrow_detection_config \<Rightarrow> line list \<Rightarrow> real list \<Rightarrow> line \<Rightarrow> nat \<Rightarrow> nat \<Rightarrow> bool" where
  "symmetric_pair cfg lines lens shaft_line j k =
     (j < length lines \<and> k < length lines \<and> j < length lens \<and> k < length lens \<and>
      \<bar>lens ! j - lens ! k\<bar> \<le> barb_length_diff_max cfg \<and>
      (\<exists>aj ak. angle_between shaft_line (lines ! j) = Inr aj \<and>
               angle_between shaft_line (lines ! k) = Inr ak \<and>
               aj \<le> arrow_angle_max cfg \<and> ak \<le> arrow_angle_max cfg \<and>
               \<bar>aj - ak\<bar> \<le> barb_angle_diff_max cfg))"

definition arrow_inv :: "real \<Rightarrow> arrow_detection_config \<Rightarrow> line list \<Rightarrow> arrow \<Rightarrow> bool" where
  "arrow_inv tol cfg lines a =
     (let s = lines ! shaft a; l = lines ! left_barb a; r = lines ! right_barb a in
      shaft a < length lines \<and>
      left_barb a \<noteq> right_barb a \<and> left_barb a \<noteq> shaft a \<and> right_barb a \<noteq> shaft a \<and>
      length_line l < length_line s \<and> length_line r < length_line s \<and>
      symmetric_pair cfg lines (map length_line lines) s (left_barb a) (right_barb a) \<and>
      (direction a = Start \<or> direction a = End) \<and>
      tip_point a = endpoint (direction a) s \<and>
      (\<exists>e. distance (tip_point a) (endpoint e l) \<le> tol) \<and>
      (\<exists>e. distance (tip_point a) (endpoint e r) \<le> tol) \<and>
      are_lines_parallel s l 5 = Inr False \<and> are_lines_parallel s r 5 = Inr False)"

definition state_inv ::
  "real \<Rightarrow> arrow_detection_config \<Rightarrow> line list \<Rightarrow> (nat \<times> direction) set \<Rightarrow>
   arrow list \<times> nat set \<Rightarrow> bool" where
  "state_inv tol cfg lines P st =
     (snd st = set (barbs_of (fst st)) \<and> distinct (barbs_of (fst st)) \<and>
      list_all (arrow_inv tol cfg lines) (fst st) \<and>
      distinct (map (\<lambda>a. (shaft a, direction a)) (fst st)) \<and>
      (\<lambda>a. (shaft a, direction a)) ` set (fst st) \<subseteq> P)"

definition shaft_seg :: line where
  "shaft_seg = \<lparr>start_point = Point 10 0, end_point = Point 0 0\<rparr>"

definition barb1_seg :: line where
  "barb1_seg = \<lparr>start_point = Point 0 0, end_point = Point (- 2) 1\<rparr>"

definition barb2_seg :: line where
  "barb2_seg = \<lparr>start_point = Point 0 0, end_point = Point (- 2) (- 1)\<rparr>"

definition example_lines :: "line list" where
  "example_lines = [shaft_seg, barb1_seg, barb2_seg]"

definition barb_angle :: real where
  "barb_angle = degrees (arccos (2 / sqrt 5))"

definition example_meeting :: "meeting list" where
  "example_meeting =
     [\<lparr>at_start = [], at_end = [(1, Start), (2, Start)]\<rparr>,
      \<lparr>at_start = [], at_end = []\<rparr>, \<lparr>at_start = [], at_end = []\<rparr>]"

definition example_arrow :: arrow where
  "example_arrow = \<lparr>shaft = 0, left_barb = 1, right_barb = 2, tip_point = Point 0 0,
                      direction = End, arrow_id = Some 1\<rparr>"

definition text_dist :: "point \<Rightarrow> text_entity list \<Rightarrow> nat \<Rightarrow> real" where
  "text_dist pos texts t = distance pos (position (texts ! t))"

definition chosen_text :: "real \<Rightarrow> text_entity list \<Rightarrow> arrow_leader \<Rightarrow> nat option" where
  "chosen_text max_dist texts l =
     map_option snd (find_closest_text (leader_position l) max_dist texts)"

definition set_match :: "real \<Rightarrow> text_entity list \<Rightarrow> arrow_leader \<Rightarrow> arrow_leader" where
  "set_match max_dist texts l =
     (case chosen_text max_dist texts l of None \<Rightarrow> l | Some t \<Rightarrow> l\<lparr>matched_text := Some t\<rparr>)"

definition match_inv ::
  "real \<Rightarrow> arrow_leader list \<Rightarrow> text_entity list \<Rightarrow> nat \<Rightarrow>
   arrow_leader list \<times> text_entity list \<Rightarrow> bool" where
  "match_inv md ls ts n st =
     (length (fst st) = length ls \<and> length (snd st) = length ts \<and>
      (\<forall>k < length ls. fst st ! k = (if k < n then set_match md ts (ls ! k) else ls ! k)) \<and>
      (\<forall>t < length ts. snd st ! t =
         (ts ! t)\<lparr>matched_arrows := matched_arrows (ts ! t) @
            filter (\<lambda>k. chosen_text md ts (ls ! k) = Some t) [0 ..< n]\<rparr>))"

definition leader_at :: "point \<Rightarrow> arrow_leader" where
  "leader_at p = \<lparr>arrow = example_arrow, leader_position = p, line_chain = [0],
                   matched_text = None, matched_boundaries = [], leader_id = None\<rparr>"

definition text_at :: "point \<Rightarrow> text_entity" where
  "text_at p = \<lparr>content = ''T'', position = p, matched_arrows = []\<rparr>"

definition two_leaders :: "arrow_leader list" where
  "two_leaders = [leader_at (Point 5 5), leader_at (Point 5 5)]"

definition two_texts :: "text_entity list" where
  "two_texts = [text_at (Point 5 6), text_at (Point 20 20)]"

definition boundary_match ::
  "line list \<Rightarrow> leader_boundary_matching_config \<Rightarrow> nat set \<Rightarrow> arrow \<Rightarrow> nat \<Rightarrow> bool" where
  "boundary_match lines bc al a j =
     (j \<notin> al \<and>
      min (distance (tip_point a) (start_point (lines ! j)))
          (distance (tip_point a) (end_point (lines ! j))) \<le> max_distance_to_arrow bc \<and>
      (\<exists>angle. angle_between (lines ! shaft a) (lines ! j) = Inr angle \<and>
         perpendicular_angle_min bc \<le> angle \<and> angle \<le> perpendicular_angle_max bc))"

definition add_boundaries ::
  "line list \<Rightarrow> leader_boundary_matching_config \<Rightarrow> nat set \<Rightarrow> arrow_leader \<Rightarrow> arrow_leader" where
  "add_boundaries lines bc al l =
     l\<lparr>matched_boundaries := matched_boundaries l @
          filter (boundary_match lines bc al (arrow l)) [0 ..< length lines]\<rparr>"

definition vertical_seg :: line where
  "vertical_seg = \<lparr>start_point = Point 0 (- 1), end_point = Point 0 1\<rparr>"

definition boundary_example :: "line list" where
  "boundary_example = [shaft_seg, barb1_seg, barb2_seg, vertical_seg]"

definition long_seg :: line where
  "long_seg = \<lparr>start_point = Point 0 0, end_point = Point 10 0\<rparr>"

definition head1_seg :: line where
  "head1_seg = \<lparr>start_point = Point 0 0, end_point = Point 2 1\<rparr>"

definition head2_seg :: line where
  "head2_seg = \<lparr>start_point = Point 0 0, end_point = Point 2 (- 1)\<rparr>"

definition head3_seg :: line where
  "head3_seg = \<lparr>start_point = Point 8 1, end_point = Point 10 0\<rparr>"

definition head4_seg :: line where
  "head4_seg = \<lparr>start_point = Point 8 (- 1), end_point = Point 10 0\<rparr>"

definition double_headed :: "line list" where
  "double_headed = [long_seg, head1_seg, head2_seg, head3_seg, head4_seg]"

definition dh_meeting :: "meeting list" where
  "dh_meeting =
     [\<lparr>at_start = [(1, Start), (2, Start)], at_end = [(3, End), (4, End)]\<rparr>,
      \<lparr>at_start = [], at_end = []\<rparr>, \<lparr>at_start = [], at_end = []\<rparr>,
      \<lparr>at_start = [], at_end = []\<rparr>, \<lparr>at_start = [], at_end = []\<rparr>]"

definition dh_arrows :: "arrow list" where
  "dh_arrows =
     [\<lparr>shaft = 0, left_barb = 1, right_barb = 2, tip_point = Point 0 0,
        direction = Start, arrow_id = Some 1\<rparr>,
      \<lparr>shaft = 0, left_barb = 3, right_barb = 4, tip_point = Point 10 0,
        direction = End, arrow_id = Some 2\<rparr>]"

section \<open>Basic facts\<close>

lemma bind_py_simps [simp]:
  "bind_py (Inl e) f = Inl e" "bind_py (Inr v) f = f v"
  by (simp_all add: bind_py_def)

lemma py_sqrt_sum: "py_sqrt (a * a + b * b) = Inr (sqrt (a * a + b * b))"
  by (simp add: py_sqrt_def not_less)

lemma magnitude_eq:
  "magnitude v =
     (if fst v * fst v \<le> DBL_MAX \<and> snd v * snd v \<le> DBL_MAX
      then Inr (sqrt (fst v * fst v + snd v * snd v)) else Inl OverflowError)"
  by (simp add: magnitude_def py_pow2_def py_sqrt_sum not_less)

lemma py_acos_clamped: "py_acos (max (- 1) (min 1 c)) = Inr (arccos (max (- 1) (min 1 c)))"
  by (simp add: py_acos_def)

lemma angle_between_eq:
  "angle_between line1 line2 =
     (if no_overflow line1 \<and> no_overflow line2 then Inr (angle_value line1 line2)
      else Inl OverflowError)"
  by (simp add: angle_between_def angle_value_def no_overflow_def magnitude_eq py_div_def
      py_acos_clamped Let_def)

lemma degrees_arccos_range:
  assumes "- 1 \<le> c" "c \<le> 1"
  shows "0 \<le> degrees (arccos c) \<and> degrees (arccos c) \<le> 180"
proof -
  have "0 \<le> arccos c" "arccos c \<le> pi"
    using assms by (simp_all add: arccos_lbound arccos_ubound)
  then show ?thesis
    by (simp add: degrees_def field_simps)
qed

lemma angle_value_range: "0 \<le> angle_value line1 line2 \<and> angle_value line1 line2 \<le> 180"
  unfolding angle_value_def Let_def
  using degrees_arccos_range [of "max (- 1) (min 1 c)" for c]
  by (simp del: max.bounded_iff min.bounded_iff)

lemma angle_between_range:
  "angle_between line1 line2 = Inr a \<Longrightarrow> 0 \<le> a \<and> a \<le> 180"
  using angle_value_range [of line1 line2]
  by (auto simp: angle_between_eq split: if_splits)

lemma angle_between_error:
  "angle_between line1 line2 = Inl e \<Longrightarrow> e = OverflowError"
  by (auto simp: angle_between_eq split: if_splits)

lemma angle_between_returns:
  "no_overflow line1 \<Longrightarrow> no_overflow line2 \<Longrightarrow>
   \<exists>a. angle_between line1 line2 = Inr a \<and> 0 \<le> a \<and> a \<le> 180"
  using angle_value_range [of line1 line2] by (simp add: angle_between_eq)

lemma angle_between_degenerate:
  assumes "no_overflow line1" and "no_overflow line2"
    and "start_point line1 = end_point line1 \<or> start_point line2 = end_point line2"
  shows "angle_between line1 line2 = Inr 0"
  using assms by (auto simp: angle_between_eq angle_value_def direction_vector_def Let_def)

lemma square_exceeds_DBL_MAX: "(2 ^ 600 :: real) * 2 ^ 600 > DBL_MAX"
proof -
  have "(2 ^ 53 - 1 :: real) < 2 ^ 229" by simp
  then have "(2 ^ 53 - 1 :: real) * 2 ^ 971 < 2 ^ 229 * 2 ^ 971"
    by (rule mult_strict_right_mono) simp
  also have "\<dots> = (2 ^ 600 :: real) * 2 ^ 600"
    unfolding power_add [symmetric] by simp
  finally show ?thesis by (simp only: DBL_MAX_def)
qed

text \<open>
  Claim C7: \<^verbatim>\<open>angle_between\<close> is total and never raises for any pair of segments.
  The guard on zero magnitudes and the clamp make \<^verbatim>\<open>ZeroDivisionError\<close> and the domain
  error of \<^verbatim>\<open>math.acos\<close> unreachable and keep every returned angle in \<open>[0, 180]\<close>
  (\<open>angle_between_error\<close>, \<open>angle_between_range\<close>, \<open>angle_between_degenerate\<close>), but
  the magnitudes are computed with \<^verbatim>\<open>** 2\<close>, which raises \<^verbatim>\<open>OverflowError\<close>: for the
  segment from \<open>(0, 0)\<close> to \<open>(2\<^sup>6\<^sup>0\<^sup>0, 0)\<close>, whose coordinates are finite doubles, the
  call raises.
\<close>

theorem angle_between_raises_overflow:
  "angle_between \<lparr>start_point = Point 0 0, end_point = Point (2 ^ 600) 0\<rparr>
                 \<lparr>start_point = Point 0 0, end_point = Point 1 0\<rparr> = Inl OverflowError"
  using square_exceeds_DBL_MAX
  by (simp add: angle_between_eq no_overflow_def direction_vector_def not_le
      del: power_numeral)

lemma min_by_key_in: "min_by_key b cs \<in> set (b # cs)"
  by (induction cs arbitrary: b) auto

lemma meeting_step_result:
  assumes "meeting_step tol lines lens i m j = Inr m'"
  shows "m' = m
       \<or> (\<exists>jp. meets_at tol lines lens i Start (j, jp) \<and> m' = m\<lparr>at_start := at_start m @ [(j, jp)]\<rparr>)
       \<or> (\<exists>jp. meets_at tol lines lens i End (j, jp) \<and> m' = m\<lparr>at_end := at_end m @ [(j, jp)]\<rparr>)"
proof -
  let ?li = "lines ! i" and ?lj = "lines ! j"
  let ?b = "(distance (start_point ?li) (start_point ?lj), Start, Start)"
  let ?cs = "[(distance (start_point ?li) (end_point ?lj), Start, End),
              (distance (end_point ?li) (start_point ?lj), End, Start),
              (distance (end_point ?li) (end_point ?lj), End, End)]"
  obtain d ip jp where r: "min_by_key ?b ?cs = (d, ip, jp)"
    by (cases "min_by_key ?b ?cs") auto
  have "(d, ip, jp) \<in> set (?b # ?cs)"
    using min_by_key_in [of ?b ?cs] r by simp
  then have d: "d = distance (endpoint ip ?li) (endpoint jp ?lj)" and ip: "ip = Start \<or> ip = End"
    by (auto simp: endpoint_def)
  show ?thesis
  proof (cases "i = j \<or> lens ! j \<ge> lens ! i")
    case True
    with assms have "m' = m" by (auto simp: meeting_step_def Let_def split: if_splits)
    then show ?thesis by simp
  next
    case False
    then obtain p where p: "are_lines_parallel ?li ?lj 5 = Inr p"
      using assms by (cases "are_lines_parallel ?li ?lj 5") (auto simp: meeting_step_def Let_def split: if_splits)
    show ?thesis
    proof (cases "p \<or> \<not> d \<le> tol")
      case True
      with assms False p r have "m' = m" by (auto simp: meeting_step_def Let_def split: if_splits)
      then show ?thesis by simp
    next
      case np: False
      have m: "meets_at tol lines lens i ip (j, jp)"
        using False p np d by (auto simp: meets_at_def)
      from assms False p r np have
        "m' = (if ip = Start then m\<lparr>at_start := at_start m @ [(j, jp)]\<rparr>
               else m\<lparr>at_end := at_end m @ [(j, jp)]\<rparr>)"
        by (auto simp: meeting_step_def Let_def split: if_splits)
      with m ip show ?thesis by auto
    qed
  qed
qed

lemma meeting_step_row_ok:
  assumes "meeting_step tol lines lens i m j = Inr m'" "row_ok tol lines lens i J m" "j \<notin> J"
  shows "row_ok tol lines lens i (insert j J) m'"
  using meeting_step_result [OF assms(1)] assms(2,3)
  by (elim disjE exE conjE) (auto simp: row_ok_def)

lemma meeting_row_row_ok:
  "meeting_row tol lines lens i js m = Inr m' \<Longrightarrow> row_ok tol lines lens i J m \<Longrightarrow>
   distinct js \<Longrightarrow> set js \<inter> J = {} \<Longrightarrow> row_ok tol lines lens i (J \<union> set js) m'"
proof (induction js arbitrary: m J)
  case Nil
  then show ?case by simp
next
  case (Cons j js)
  from Cons.prems(1) obtain m1 where s: "meeting_step tol lines lens i m j = Inr m1"
    and r: "meeting_row tol lines lens i js m1 = Inr m'"
    by (auto split: sum.splits)
  have "row_ok tol lines lens i (insert j J) m1"
    using meeting_step_row_ok [OF s Cons.prems(2)] Cons.prems(4) by auto
  from Cons.IH [OF r this] Cons.prems(3,4) show ?case by auto
qed

lemma meeting_pass_rows:
  "meeting_pass tol lines lens idxs = Inr ms \<Longrightarrow>
   length ms = length idxs \<and>
   (\<forall>k < length idxs. row_ok tol lines lens (idxs ! k) {0 ..< length lines} (ms ! k))"
proof (induction idxs arbitrary: ms)
  case Nil
  then show ?case by simp
next
  case (Cons i rest)
  from Cons.prems obtain m ms' where
    m: "meeting_row tol lines lens i [0 ..< length lines] \<lparr>at_start = [], at_end = []\<rparr> = Inr m"
    and r: "meeting_pass tol lines lens rest = Inr ms'" and ms: "ms = m # ms'"
    by (auto split: sum.splits)
  have "row_ok tol lines lens i ({} \<union> set [0 ..< length lines]) m"
    by (rule meeting_row_row_ok [OF m]) (simp_all add: row_ok_def)
  then have "row_ok tol lines lens i {0 ..< length lines} m" by simp
  with Cons.IH [OF r] ms show ?case
    by (auto simp: nth_Cons split: nat.splits)
qed

lemma index_pairs_less: "p \<in> set (index_pairs n) \<Longrightarrow> fst p < snd p \<and> snd p < n"
  by (auto simp: index_pairs_def)

lemma check_pairs_Some:
  "check_pairs sl m lines lens used cfg ps = Inr (Some (j, k)) \<Longrightarrow>
   \<exists>p \<in> set ps. j = fst (m ! fst p) \<and> k = fst (m ! snd p) \<and> j \<notin> used \<and> k \<notin> used \<and>
     symmetric_pair cfg lines lens sl j k"
proof (induction ps)
  case Nil
  then show ?case by simp
next
  case (Cons p ps)
  let ?j = "fst (m ! fst p)" and ?k = "fst (m ! snd p)"
  show ?case
  proof (cases "check_pairs sl m lines lens used cfg ps = Inr (Some (j, k))")
    case True
    from Cons.IH [OF this] show ?thesis by auto
  next
    case False
    have u: "?j \<notin> used \<and> ?k \<notin> used"
      using Cons.prems False by (auto simp: Let_def split: if_splits)
    then have r: "\<not> (length lines \<le> ?j \<or> length lines \<le> ?k
                    \<or> length lens \<le> ?j \<or> length lens \<le> ?k)"
      using Cons.prems by (auto simp: Let_def split: if_splits)
    have d: "\<not> \<bar>lens ! ?j - lens ! ?k\<bar> > barb_length_diff_max cfg"
      using Cons.prems False u r by (auto simp: Let_def split: if_splits)
    from Cons.prems False u r d obtain aj where aj: "angle_between sl (lines ! ?j) = Inr aj"
      by (cases "angle_between sl (lines ! ?j)") (auto simp: Let_def)
    from Cons.prems False u r d aj obtain ak where ak: "angle_between sl (lines ! ?k) = Inr ak"
      by (cases "angle_between sl (lines ! ?k)") (auto simp: Let_def)
    from Cons.prems False u r d aj ak have
      "aj \<le> arrow_angle_max cfg \<and> ak \<le> arrow_angle_max cfg
       \<and> \<bar>aj - ak\<bar> \<le> barb_angle_diff_max cfg \<and> j = ?j \<and> k = ?k"
      by (auto simp: Let_def split: if_splits)
    with u r d aj ak have "j = ?j \<and> k = ?k \<and> j \<notin> used \<and> k \<notin> used \<and>
        symmetric_pair cfg lines lens sl j k"
      by (auto simp: symmetric_pair_def)
    then show ?thesis by auto
  qed
qed

lemma check_symmetrical_lines_Some:
  assumes "check_symmetrical_lines sl m lines lens used cfg = Inr (Some (j, k))"
  shows "\<exists>a b. a < b \<and> b < length m \<and> j = fst (m ! a) \<and> k = fst (m ! b) \<and>
           j \<notin> used \<and> k \<notin> used \<and> symmetric_pair cfg lines lens sl j k"
proof -
  from assms have "check_pairs sl m lines lens used cfg (index_pairs (length m)) = Inr (Some (j, k))"
    by (auto simp: check_symmetrical_lines_def split: if_splits)
  from check_pairs_Some [OF this] obtain p where "p \<in> set (index_pairs (length m))"
    and *: "j = fst (m ! fst p) \<and> k = fst (m ! snd p) \<and> j \<notin> used \<and> k \<notin> used \<and>
     symmetric_pair cfg lines lens sl j k" by auto
  from index_pairs_less [OF this(1)] * show ?thesis by blast
qed

lemma state_inv_mono: "state_inv tol cfg lines P st \<Longrightarrow> P \<subseteq> Q \<Longrightarrow> state_inv tol cfg lines Q st"
  by (auto simp: state_inv_def)

lemma classify_endpoint_inv:
  assumes c: "classify_endpoint lines (map length_line lines) cfg i m
                (endpoint dir (lines ! i)) dir st = Inr st'"
    and inv: "state_inv tol cfg lines P st"
    and new: "(i, dir) \<notin> P"
    and i: "i < length lines"
    and dir: "dir = Start \<or> dir = End"
    and m: "list_all (meets_at tol lines (map length_line lines) i dir) m"
    and dm: "distinct (map fst m)"
  shows "state_inv tol cfg lines (insert (i, dir) P) st'"
proof (cases "st' = st")
  case True
  with inv show ?thesis by (auto intro: state_inv_mono)
next
  case False
  let ?lens = "map length_line lines"
  from c False obtain j k where
    cs: "check_symmetrical_lines (lines ! i) m lines ?lens (snd st) cfg = Inr (Some (j, k))"
    and st': "st' = (fst st @ [\<lparr>shaft = i, left_barb = j, right_barb = k,
                               tip_point = endpoint dir (lines ! i), direction = dir,
                               arrow_id = None\<rparr>],
                    insert k (insert j (snd st)))"
    by (auto simp: classify_endpoint_def split: if_splits sum.splits option.splits)
  from check_symmetrical_lines_Some [OF cs] obtain a b where
    ab: "a < b" "b < length m" and j: "j = fst (m ! a)" and k: "k = fst (m ! b)"
    and u: "j \<notin> snd st" "k \<notin> snd st"
    and sp: "symmetric_pair cfg lines ?lens (lines ! i) j k"
    by blast
  from sp have jl: "j < length lines" and kl: "k < length lines"
    by (auto simp: symmetric_pair_def)
  have jk: "j \<noteq> k"
    using dm ab j k by (auto simp: distinct_conv_nth)
  have ma: "meets_at tol lines ?lens i dir (m ! a)" and mb: "meets_at tol lines ?lens i dir (m ! b)"
    using m ab by (auto simp: list_all_length)
  let ?a = "\<lparr>shaft = i, left_barb = j, right_barb = k,
             tip_point = endpoint dir (lines ! i), direction = dir, arrow_id = None\<rparr>"
  have "arrow_inv tol cfg lines ?a"
    using ma mb j k jl kl i sp dir jk
    unfolding arrow_inv_def meets_at_def Let_def by auto
  then show ?thesis
    using inv new u jk unfolding st' state_inv_def barbs_of_def by auto
qed

lemma classify_step_inv:
  assumes c: "classify_step lines (map length_line lines) ms cfg i st = Inr st'"
    and inv: "state_inv tol cfg lines P st"
    and new: "(i, Start) \<notin> P" "(i, End) \<notin> P"
    and i: "i < length lines"
    and row: "row_ok tol lines (map length_line lines) i J (ms ! i)"
  shows "state_inv tol cfg lines (insert (i, End) (insert (i, Start) P)) st'"
proof -
  from c obtain st1 where
    s1: "classify_endpoint lines (map length_line lines) cfg i (at_start (ms ! i))
           (endpoint Start (lines ! i)) Start st = Inr st1"
    and s2: "classify_endpoint lines (map length_line lines) cfg i (at_end (ms ! i))
           (endpoint End (lines ! i)) End st1 = Inr st'"
    by (auto simp: classify_step_def endpoint_def split: sum.splits)
  have "state_inv tol cfg lines (insert (i, Start) P) st1"
    using classify_endpoint_inv [OF s1 inv new(1) i] row by (simp add: row_ok_def)
  from classify_endpoint_inv [OF s2 this _ i] new(2) row show ?thesis
    by (simp add: row_ok_def)
qed

lemma classify_pass_inv:
  "classify_pass lines (map length_line lines) ms cfg idxs st = Inr st' \<Longrightarrow>
   state_inv tol cfg lines P st \<Longrightarrow> distinct idxs \<Longrightarrow>
   \<forall>i \<in> set idxs. i < length lines \<and> (i, Start) \<notin> P \<and> (i, End) \<notin> P \<and>
      row_ok tol lines (map length_line lines) i J (ms ! i) \<Longrightarrow>
   state_inv tol cfg lines (P \<union> set idxs \<times> {Start, End}) st'"
proof (induction idxs arbitrary: st P)
  case Nil
  then show ?case by simp
next
  case (Cons i rest)
  from Cons.prems(1) obtain st1 where
    s: "classify_step lines (map length_line lines) ms cfg i st = Inr st1"
    and r: "classify_pass lines (map length_line lines) ms cfg rest st1 = Inr st'"
    by (auto split: sum.splits)
  have 1: "state_inv tol cfg lines (insert (i, End) (insert (i, Start) P)) st1"
    using classify_step_inv [OF s Cons.prems(2)] Cons.prems(4) by auto
  have "state_inv tol cfg lines (insert (i, End) (insert (i, Start) P) \<union> set rest \<times> {Start, End}) st'"
    using Cons.IH [OF r 1] Cons.prems(3,4) by auto
  then show ?case by (rule state_inv_mono) auto
qed

lemma assign_arrow_ids_length [simp]: "length (assign_arrow_ids arrows) = length arrows"
  by (simp add: assign_arrow_ids_def del: upt_Suc)

lemma assign_arrow_ids_nth:
  "n < length arrows \<Longrightarrow> assign_arrow_ids arrows ! n = (arrows ! n)\<lparr>arrow_id := Some (Suc n)\<rparr>"
  by (simp add: assign_arrow_ids_def del: upt_Suc)

lemma assign_arrow_ids_map:
  assumes "\<And>a v. f (a\<lparr>arrow_id := v\<rparr>) = f a"
  shows "map f (assign_arrow_ids arrows) = map f arrows"
  by (rule nth_equalityI) (simp_all add: assign_arrow_ids_nth assms)

lemma detect_state_inv:
  assumes "detect_arrows_in_drawing lines config = Inr arrows"
  shows "\<exists>st. arrows = assign_arrow_ids (fst st) \<and>
           state_inv (tip_point_tolerance (ARROW_DETECTION config)) (ARROW_DETECTION config)
             lines ({0 ..< length lines} \<times> {Start, End}) st"
proof -
  let ?cfg = "ARROW_DETECTION config" and ?lens = "map length_line lines"
  let ?tol = "tip_point_tolerance ?cfg"
  from assms obtain ms st where
    ms: "meeting_pass ?tol lines ?lens [0 ..< length lines] = Inr ms"
    and st: "classify_pass lines ?lens ms ?cfg [0 ..< length lines] ([], {}) = Inr st"
    and a: "arrows = assign_arrow_ids (fst st)"
    by (auto simp: detect_arrows_in_drawing_def Let_def split: sum.splits)
  from meeting_pass_rows [OF ms] have
    rows: "\<forall>i < length lines. row_ok ?tol lines ?lens i {0 ..< length lines} (ms ! i)"
    by auto
  have "state_inv ?tol ?cfg lines ({} \<union> set [0 ..< length lines] \<times> {Start, End}) st"
    by (rule classify_pass_inv [OF st]) (use rows in \<open>auto simp: state_inv_def barbs_of_def\<close>)
  with a show ?thesis by (intro exI [of _ st]) simp
qed

lemma arccos_gt_sin:
  assumes "\<bar>c\<bar> \<le> 9 / 10"
  shows "2 / 5 < arccos c \<and> arccos c < pi - 2 / 5"
proof -
  let ?t = "arccos c"
  have c1: "\<bar>c\<bar> \<le> 1" using assms by simp
  have t: "0 \<le> ?t" "?t \<le> pi"
    using c1 by (simp_all add: arccos_lbound arccos_ubound abs_le_iff)
  have "c\<^sup>2 \<le> (9 / 10)\<^sup>2"
    using assms by (metis abs_ge_zero power_mono power2_abs)
  then have "(2 / 5)\<^sup>2 < 1 - c\<^sup>2" by (simp add: power2_eq_square)
  then have "2 / 5 < sqrt (1 - c\<^sup>2)" by (rule real_less_rsqrt)
  then have s: "2 / 5 < sin ?t" using c1 by (simp add: sin_arccos_abs)
  have "sin ?t \<le> ?t" using t by (simp add: sin_x_le_x)
  moreover have "sin (pi - ?t) \<le> pi - ?t" using t by (intro sin_x_le_x) simp
  ultimately show ?thesis using s by simp
qed

lemma degrees_not_parallel:
  assumes "\<bar>c\<bar> \<le> 9 / 10"
  shows "5 < degrees (arccos c) \<and> degrees (arccos c) < 175"
proof -
  from arccos_gt_sin [OF assms] have a: "2 / 5 < arccos c" "arccos c < pi - 2 / 5" by simp_all
  have p: "pi < 4" "0 < pi" using pi_less_4 by simp_all
  have "5 * pi < arccos c * 180" using a(1) p by simp
  moreover have "arccos c * 180 < 175 * pi" using a(2) p by simp
  ultimately show ?thesis using p by (simp add: degrees_def field_simps)
qed

lemma degrees_le_60:
  assumes "1 / 2 \<le> c" "c \<le> 1"
  shows "degrees (arccos c) \<le> 60"
proof -
  have "arccos c \<le> arccos (1 / 2)"
    using assms by (intro arccos_le_arccos) simp_all
  also have "arccos (1 / 2) = pi / 3"
    using arccos_cos [of "pi / 3"] by (simp add: cos_60)
  finally show ?thesis by (simp add: degrees_def field_simps)
qed

lemma DBL_MAX_large: "1000000 \<le> DBL_MAX"
proof -
  have "(1000000 :: real) \<le> 2 ^ 20 * 1" by simp
  also have "\<dots> \<le> (2 ^ 53 - 1) * 2 ^ 971"
    by (intro mult_mono) simp_all
  finally show ?thesis by (simp only: DBL_MAX_def)
qed

lemma no_overflow_small:
  assumes "\<bar>px (end_point l) - px (start_point l)\<bar> \<le> 1000"
    and "\<bar>py (end_point l) - py (start_point l)\<bar> \<le> 1000"
  shows "no_overflow l"
proof -
  have "a * a \<le> DBL_MAX" if "\<bar>a\<bar> \<le> 1000" for a :: real
  proof -
    have "a * a = \<bar>a\<bar> * \<bar>a\<bar>" by simp
    also have "\<dots> \<le> 1000 * 1000" using that by (intro mult_mono) simp_all
    finally show ?thesis using DBL_MAX_large by simp
  qed
  then show ?thesis using assms by (simp add: no_overflow_def direction_vector_def Let_def)
qed

lemma sqrt_100: "sqrt 100 = 10"
  using real_sqrt_abs [of 10] by simp

lemma sqrt5_bounds: "2 < sqrt 5" "sqrt 5 < 3"
  by (simp_all add: real_less_rsqrt real_less_lsqrt)

lemma barb_cos_bounds: "1 / 2 \<le> 2 / sqrt 5" "2 / sqrt 5 \<le> 9 / 10"
proof -
  have "20 \<le> 9 * sqrt 5"
  proof -
    have "(20 / 9)\<^sup>2 \<le> (5 :: real)" by (simp add: power2_eq_square)
    then have "20 / 9 \<le> sqrt 5" by (rule real_le_rsqrt)
    then show ?thesis by simp
  qed
  then show "2 / sqrt 5 \<le> 9 / 10" using sqrt5_bounds by (simp add: field_simps)
  show "1 / 2 \<le> 2 / sqrt 5" using sqrt5_bounds by (simp add: field_simps)
qed

lemma barb_angle_bounds: "5 < barb_angle" "barb_angle < 175" "barb_angle \<le> 60"
  using degrees_not_parallel [of "2 / sqrt 5"] degrees_le_60 [of "2 / sqrt 5"] barb_cos_bounds
  sqrt5_bounds by (simp_all add: barb_angle_def)

lemma angle_value_barb:
  assumes "sqrt (fst (direction_vector l1) * fst (direction_vector l1)
             + snd (direction_vector l1) * snd (direction_vector l1)) = 10"
    and "fst (direction_vector l2) * fst (direction_vector l2)
             + snd (direction_vector l2) * snd (direction_vector l2) = 5"
    and "dot_product (direction_vector l1) (direction_vector l2) = 20"
  shows "angle_value l1 l2 = barb_angle"
proof -
  have c: "max (- 1) (min 1 ((20 :: real) / (10 * sqrt 5))) = 2 / sqrt 5"
  proof -
    have "2 / sqrt 5 \<le> 1" "- 1 \<le> 2 / sqrt 5"
      using barb_cos_bounds by linarith+
    then have "max (- 1) (min 1 (2 / sqrt 5)) = 2 / sqrt 5"
      by (simp only: min_absorb2 max_absorb2)
    then show ?thesis by simp
  qed
  have "angle_value l1 l2 =
      (if (10 :: real) = 0 \<or> sqrt 5 = 0 then 0
       else degrees (arccos (max (- 1) (min 1 (20 / (10 * sqrt 5))))))"
    by (simp only: angle_value_def Let_def assms)
  also have "\<dots> = degrees (arccos (max (- 1) (min 1 (20 / (10 * sqrt 5)))))"
    by simp
  finally show ?thesis by (simp only: c barb_angle_def)
qed

lemma seg_points [simp]:
  "start_point shaft_seg = Point 10 0" "end_point shaft_seg = Point 0 0"
  "start_point barb1_seg = Point 0 0" "end_point barb1_seg = Point (- 2) 1"
  "start_point barb2_seg = Point 0 0" "end_point barb2_seg = Point (- 2) (- 1)"
  by (simp_all add: shaft_seg_def barb1_seg_def barb2_seg_def)

lemma seg_no_overflow: "no_overflow shaft_seg" "no_overflow barb1_seg" "no_overflow barb2_seg"
  by (rule no_overflow_small; simp)+

lemma seg_lengths:
  "length_line shaft_seg = 10" "length_line barb1_seg = sqrt 5" "length_line barb2_seg = sqrt 5"
  by (simp_all add: length_line_def sqrt_100)

lemma seg_angles:
  "angle_between shaft_seg barb1_seg = Inr barb_angle"
  "angle_between shaft_seg barb2_seg = Inr barb_angle"
  by (simp_all add: angle_between_eq seg_no_overflow angle_value_barb direction_vector_def
      dot_product_def sqrt_100)

lemma seg_not_parallel:
  "are_lines_parallel shaft_seg barb1_seg 5 = Inr False"
  "are_lines_parallel shaft_seg barb2_seg 5 = Inr False"
  using barb_angle_bounds by (simp_all add: are_lines_parallel_def seg_angles)

lemma upt_3: "[0 ..< 3] = [0, 1, 2]"
  by (simp add: upt_rec)

lemma sqrt_cmp:
  "sqrt 5 < 10" "\<not> 10 \<le> sqrt 5" "\<not> sqrt 145 < 10" "\<not> sqrt 5 < 0" "\<not> 10 < (0::real)"
  using sqrt5_bounds real_less_rsqrt [of 10 145] by simp_all

lemma example_meeting_row0:
  "meeting_row (1 / 10) example_lines [10, sqrt 5, sqrt 5] 0 [0, 1, 2]
     \<lparr>at_start = [], at_end = []\<rparr>
   = Inr \<lparr>at_start = [], at_end = [(1, Start), (2, Start)]\<rparr>"
  by (simp add: meeting_step_def example_lines_def seg_not_parallel distance_def sqrt_cmp
      sqrt_100)

lemma sqrt5_le_10: "sqrt 5 \<le> 10"
  using sqrt5_bounds by simp

lemma example_meeting_row1:
  "meeting_row (1 / 10) example_lines [10, sqrt 5, sqrt 5] 1 [0, 1, 2]
     \<lparr>at_start = [], at_end = []\<rparr>
   = Inr \<lparr>at_start = [], at_end = []\<rparr>"
  by (simp add: meeting_step_def example_lines_def sqrt_cmp sqrt5_le_10)

lemma example_meeting_row2:
  "meeting_row (1 / 10) example_lines [10, sqrt 5, sqrt 5] 2 [0, 1, 2]
     \<lparr>at_start = [], at_end = []\<rparr>
   = Inr \<lparr>at_start = [], at_end = []\<rparr>"
  by (simp add: meeting_step_def example_lines_def sqrt_cmp sqrt5_le_10)

lemma example_lengths: "map length_line example_lines = [10, sqrt 5, sqrt 5]"
  by (simp add: example_lines_def seg_lengths)

lemma example_length [simp]: "length example_lines = 3"
  by (simp add: example_lines_def)

lemma example_meeting_pass:
  "meeting_pass (1 / 10) example_lines [10, sqrt 5, sqrt 5] [0, 1, 2]
   = Inr [\<lparr>at_start = [], at_end = [(1, Start), (2, Start)]\<rparr>,
          \<lparr>at_start = [], at_end = []\<rparr>, \<lparr>at_start = [], at_end = []\<rparr>]"
  by (simp only: meeting_pass.simps example_length upt_3 example_meeting_row0
      example_meeting_row1 example_meeting_row2 sum.case)

lemma index_pairs_2: "index_pairs (Suc (Suc 0)) = [(0, Suc 0)]"
  by (simp add: index_pairs_def upt_rec)

lemma example_check:
  "check_symmetrical_lines shaft_seg [(Suc 0, Start), (2, Start)] example_lines
     [10, sqrt 5, sqrt 5] {} (ARROW_DETECTION CONFIG) = Inr (Some (Suc 0, 2))"
  using barb_angle_bounds
  by (simp add: check_symmetrical_lines_def index_pairs_2 example_lines_def seg_angles
      CONFIG_def)

lemma example_classify_step0:
  "classify_step example_lines [10, sqrt 5, sqrt 5] example_meeting (ARROW_DETECTION CONFIG)
     0 ([], {})
   = Inr ([\<lparr>shaft = 0, left_barb = 1, right_barb = 2, tip_point = Point 0 0,
             direction = End, arrow_id = None\<rparr>], {1, 2})"
proof -
  have e: "example_lines ! 0 = shaft_seg" by (simp add: example_lines_def)
  show ?thesis
    by (simp add: classify_step_def classify_endpoint_def e example_check insert_commute
        example_meeting_def)
qed

lemma example_classify_step1:
  "classify_step example_lines [10, sqrt 5, sqrt 5] example_meeting (ARROW_DETECTION CONFIG)
     1 st = Inr st"
  by (simp add: classify_step_def classify_endpoint_def example_meeting_def)

lemma example_classify_step2:
  "classify_step example_lines [10, sqrt 5, sqrt 5] example_meeting (ARROW_DETECTION CONFIG)
     2 st = Inr st"
  by (simp add: classify_step_def classify_endpoint_def example_meeting_def)

lemma example_classify:
  "classify_pass example_lines [10, sqrt 5, sqrt 5] example_meeting
     (ARROW_DETECTION CONFIG) [0, 1, 2] ([], {})
   = Inr ([\<lparr>shaft = 0, left_barb = 1, right_barb = 2, tip_point = Point 0 0,
             direction = End, arrow_id = None\<rparr>], {1, 2})"
  by (simp only: classify_pass.simps example_classify_step0 example_classify_step1
      example_classify_step2 sum.case)

lemma example_detect:
  "detect_arrows_in_drawing example_lines CONFIG
   = Inr [\<lparr>shaft = 0, left_barb = 1, right_barb = 2, tip_point = Point 0 0,
            direction = End, arrow_id = Some 1\<rparr>]"
proof -
  have t: "tip_point_tolerance (ARROW_DETECTION CONFIG) = 1 / 10"
    by (simp add: CONFIG_def)
  have "detect_arrows_in_drawing example_lines CONFIG
      = Inr (assign_arrow_ids [\<lparr>shaft = 0, left_barb = 1, right_barb = 2,
               tip_point = Point 0 0, direction = End, arrow_id = None\<rparr>])"
    by (simp only: detect_arrows_in_drawing_def Let_def example_lengths t example_length upt_3
        example_meeting_pass example_meeting_def [symmetric] example_classify sum.case fst_conv)
  then show ?thesis by (simp add: assign_arrow_ids_def upt_rec)
qed

lemma arrow_inv_id:
  "arrow_inv tol cfg lines (a\<lparr>arrow_id := v\<rparr>) = arrow_inv tol cfg lines a"
  by (simp add: arrow_inv_def)

lemma assign_arrow_ids_set:
  "a \<in> set (assign_arrow_ids arrows) \<Longrightarrow> \<exists>b \<in> set arrows. \<exists>v. a = b\<lparr>arrow_id := v\<rparr>"
proof -
  assume "a \<in> set (assign_arrow_ids arrows)"
  then obtain i where i: "i < length arrows" "a = assign_arrow_ids arrows ! i"
    by (auto simp: in_set_conv_nth)
  then have "a = (arrows ! i)\<lparr>arrow_id := Some (Suc i)\<rparr>"
    by (simp add: assign_arrow_ids_nth)
  with i(1) show ?thesis using nth_mem by blast
qed

lemma detect_arrow_inv:
  assumes "detect_arrows_in_drawing lines config = Inr arrows" and "a \<in> set arrows"
  shows "arrow_inv (tip_point_tolerance (ARROW_DETECTION config)) (ARROW_DETECTION config) lines a"
proof -
  from detect_state_inv [OF assms(1)] obtain st where
    a: "arrows = assign_arrow_ids (fst st)"
    and inv: "state_inv (tip_point_tolerance (ARROW_DETECTION config)) (ARROW_DETECTION config)
                lines ({0 ..< length lines} \<times> {Start, End}) st"
    by blast
  from assms(2) a obtain b v where "b \<in> set (fst st)" "a = b\<lparr>arrow_id := v\<rparr>"
    using assign_arrow_ids_set by blast
  with inv show ?thesis
    by (auto simp: state_inv_def list_all_iff arrow_inv_id)
qed

lemma detect_barbs_distinct:
  assumes "detect_arrows_in_drawing lines config = Inr arrows"
  shows "distinct (barbs_of arrows)"
proof -
  from detect_state_inv [OF assms] obtain st where
    a: "arrows = assign_arrow_ids (fst st)"
    and inv: "state_inv (tip_point_tolerance (ARROW_DETECTION config)) (ARROW_DETECTION config)
                lines ({0 ..< length lines} \<times> {Start, End}) st"
    by blast
  have "map (\<lambda>a. [left_barb a, right_barb a]) arrows
      = map (\<lambda>a. [left_barb a, right_barb a]) (fst st)"
    unfolding a by (rule assign_arrow_ids_map) simp
  then have "barbs_of arrows = barbs_of (fst st)" by (simp add: barbs_of_def)
  with inv show ?thesis by (simp add: state_inv_def)
qed

lemma detect_shaft_direction_distinct:
  assumes "detect_arrows_in_drawing lines config = Inr arrows"
  shows "distinct (map (\<lambda>a. (shaft a, direction a)) arrows)"
proof -
  from detect_state_inv [OF assms] obtain st where
    a: "arrows = assign_arrow_ids (fst st)"
    and inv: "state_inv (tip_point_tolerance (ARROW_DETECTION config)) (ARROW_DETECTION config)
                lines ({0 ..< length lines} \<times> {Start, End}) st"
    by blast
  have "map (\<lambda>a. (shaft a, direction a)) arrows = map (\<lambda>a. (shaft a, direction a)) (fst st)"
    unfolding a by (rule assign_arrow_ids_map) simp
  with inv show ?thesis by (simp add: state_inv_def)
qed

lemma length_line_nonneg: "0 \<le> length_line l"
  by (simp add: length_line_def Let_def)

lemma length_line_pos_ends: "0 < length_line l \<Longrightarrow> start_point l \<noteq> end_point l"
  by (auto simp: length_line_def Let_def)

text \<open>
  Claim C1: for the three segments shaft \<open>(10,0) \<rightarrow> (0,0)\<close>, barb \<open>(0,0) \<rightarrow> (-2,1)\<close> and barb
  \<open>(0,0) \<rightarrow> (-2,-1)\<close>, arrow detection with the default configuration (tolerances 0.1, 0.2,
  75.0 and 0.5) returns exactly one arrow: its shaft is segment 0, its tip is \<open>(0,0)\<close>, the
  shaft's end point, its direction is \<open>End\<close>, and its barbs are segments 1 and 2.
\<close>

theorem detect_three_segments:
  "ARROW_DETECTION CONFIG =
     \<lparr>tip_point_tolerance = 0.1, barb_length_diff_max = 0.2,
      arrow_angle_max = 75.0, barb_angle_diff_max = 0.5\<rparr> \<and>
   detect_arrows_in_drawing
     [\<lparr>start_point = Point 10 0, end_point = Point 0 0\<rparr>,
      \<lparr>start_point = Point 0 0, end_point = Point (- 2) 1\<rparr>,
      \<lparr>start_point = Point 0 0, end_point = Point (- 2) (- 1)\<rparr>] CONFIG
   = Inr [\<lparr>shaft = 0, left_barb = 1, right_barb = 2, tip_point = Point 0 0,
            direction = End, arrow_id = Some 1\<rparr>]"
  using example_detect
  by (simp add: example_lines_def shaft_seg_def barb1_seg_def barb2_seg_def CONFIG_def)

text \<open>
  Claim C3: every arrow returned by arrow detection has both barbs strictly shorter than
  the shaft, both barb angles to the shaft at most \<open>arrow_angle_max\<close>, barb lengths that
  differ by at most \<open>barb_length_diff_max\<close>, barb angles that differ by at most
  \<open>barb_angle_diff_max\<close>, an endpoint of each barb within \<open>tip_point_tolerance\<close> of the
  tip point, and a direction that is \<open>Start\<close> exactly when the tip is the shaft's start
  point and \<open>End\<close> exactly when it is the shaft's end point.
\<close>

theorem detected_arrow_invariant:
  assumes "detect_arrows_in_drawing lines config = Inr arrows" and "a \<in> set arrows"
  shows "length_line (lines ! left_barb a) < length_line (lines ! shaft a) \<and>
         length_line (lines ! right_barb a) < length_line (lines ! shaft a) \<and>
         (\<exists>angle_l angle_r.
            angle_between (lines ! shaft a) (lines ! left_barb a) = Inr angle_l \<and>
            angle_between (lines ! shaft a) (lines ! right_barb a) = Inr angle_r \<and>
            angle_l \<le> arrow_angle_max (ARROW_DETECTION config) \<and>
            angle_r \<le> arrow_angle_max (ARROW_DETECTION config) \<and>
            \<bar>angle_l - angle_r\<bar> \<le> barb_angle_diff_max (ARROW_DETECTION config)) \<and>
         \<bar>length_line (lines ! left_barb a) - length_line (lines ! right_barb a)\<bar>
            \<le> barb_length_diff_max (ARROW_DETECTION config) \<and>
         (distance (tip_point a) (start_point (lines ! left_barb a))
            \<le> tip_point_tolerance (ARROW_DETECTION config) \<or>
          distance (tip_point a) (end_point (lines ! left_barb a))
            \<le> tip_point_tolerance (ARROW_DETECTION config)) \<and>
         (distance (tip_point a) (start_point (lines ! right_barb a))
            \<le> tip_point_tolerance (ARROW_DETECTION config) \<or>
          distance (tip_point a) (end_point (lines ! right_barb a))
            \<le> tip_point_tolerance (ARROW_DETECTION config)) \<and>
         (direction a = Start \<longleftrightarrow> tip_point a = start_point (lines ! shaft a)) \<and>
         (direction a = End \<longleftrightarrow> tip_point a = end_point (lines ! shaft a))"
proof -
  let ?cfg = "ARROW_DETECTION config"
  let ?s = "lines ! shaft a" and ?l = "lines ! left_barb a" and ?r = "lines ! right_barb a"
  have inv: "arrow_inv (tip_point_tolerance ?cfg) ?cfg lines a"
    using assms by (rule detect_arrow_inv)
  then have len: "length_line ?l < length_line ?s" "length_line ?r < length_line ?s"
    and sp: "symmetric_pair ?cfg lines (map length_line lines) ?s (left_barb a) (right_barb a)"
    and dir: "direction a = Start \<or> direction a = End"
    and tip: "tip_point a = endpoint (direction a) ?s"
    and el: "\<exists>e. distance (tip_point a) (endpoint e ?l) \<le> tip_point_tolerance ?cfg"
    and er: "\<exists>e. distance (tip_point a) (endpoint e ?r) \<le> tip_point_tolerance ?cfg"
    unfolding arrow_inv_def Let_def by blast+
  from sp have ang: "\<exists>angle_l angle_r.
            angle_between ?s ?l = Inr angle_l \<and> angle_between ?s ?r = Inr angle_r \<and>
            angle_l \<le> arrow_angle_max ?cfg \<and> angle_r \<le> arrow_angle_max ?cfg \<and>
            \<bar>angle_l - angle_r\<bar> \<le> barb_angle_diff_max ?cfg"
    and diff: "\<bar>length_line ?l - length_line ?r\<bar> \<le> barb_length_diff_max ?cfg"
    by (auto simp: symmetric_pair_def)
  from el have dl: "distance (tip_point a) (start_point ?l) \<le> tip_point_tolerance ?cfg \<or>
          distance (tip_point a) (end_point ?l) \<le> tip_point_tolerance ?cfg"
    by (auto simp: endpoint_def split: if_splits)
  from er have dr: "distance (tip_point a) (start_point ?r) \<le> tip_point_tolerance ?cfg \<or>
          distance (tip_point a) (end_point ?r) \<le> tip_point_tolerance ?cfg"
    by (auto simp: endpoint_def split: if_splits)
  have "0 < length_line ?s"
    using len(1) length_line_nonneg [of ?l] by linarith
  then have ne: "start_point ?s \<noteq> end_point ?s" by (rule length_line_pos_ends)
  have d1: "direction a = Start \<longleftrightarrow> tip_point a = start_point ?s"
    using dir tip ne by (auto simp: endpoint_def)
  have d2: "direction a = End \<longleftrightarrow> tip_point a = end_point ?s"
    using dir tip ne by (auto simp: endpoint_def)
  from len ang diff dl dr d1 d2 show ?thesis by blast
qed

lemma example_detect_arrow: "detect_arrows_in_drawing example_lines CONFIG = Inr [example_arrow]"
  by (simp only: example_detect example_arrow_def)

theorem detected_arrow_invariant_witness:
  "detect_arrows_in_drawing example_lines CONFIG = Inr [example_arrow] \<and>
   example_arrow \<in> set [example_arrow] \<and>
   length_line (example_lines ! left_barb example_arrow)
     < length_line (example_lines ! shaft example_arrow) \<and>
   (direction example_arrow = End \<longleftrightarrow>
      tip_point example_arrow = end_point (example_lines ! shaft example_arrow))"
proof -
  have m: "example_arrow \<in> set [example_arrow]" by simp
  from detected_arrow_invariant [OF example_detect_arrow m] example_detect_arrow m
  show ?thesis by blast
qed

text \<open>
  Claim C6: in one run of arrow detection no segment is a barb, left or right, of more
  than one arrow: the barb references of the returned arrows are pairwise distinct. The
  mechanism is the set \<^verbatim>\<open>used_barbs\<close>: \<^verbatim>\<open>check_symmetrical_lines\<close> only returns a pair of
  unused indices (\<open>check_symmetrical_lines_Some\<close>) and \<open>classify_endpoint\<close> adds both
  indices of an accepted pair to the set.
\<close>

theorem barbs_exclusive:
  assumes "detect_arrows_in_drawing lines config = Inr arrows"
  shows "distinct (concat (map (\<lambda>a. [left_barb a, right_barb a]) arrows))"
  using detect_barbs_distinct [OF assms] by (simp add: barbs_of_def)

lemma assign_leader_ids_length [simp]:
  "length (assign_leader_ids ls) = length ls"
  by (simp add: assign_leader_ids_def del: upt_Suc)

lemma assign_leader_ids_nth:
  "n < length ls \<Longrightarrow> assign_leader_ids ls ! n = (ls ! n)\<lparr>leader_id := Some (Suc n)\<rparr>"
  by (simp add: assign_leader_ids_def del: upt_Suc)

lemma create_arrow_leaders_length [simp]:
  "length (create_arrow_leaders lines arrows) = length arrows"
  by (simp add: create_arrow_leaders_def)

lemma create_arrow_leaders_nth:
  "k < length arrows \<Longrightarrow>
   create_arrow_leaders lines arrows ! k =
     \<lparr>arrow = arrows ! k,
      leader_position = get_leader_position (lines ! shaft (arrows ! k)) (direction (arrows ! k)),
      line_chain = [shaft (arrows ! k)], matched_text = None, matched_boundaries = [],
      leader_id = Some (Suc k)\<rparr>"
  by (simp add: create_arrow_leaders_def assign_leader_ids_nth)

text \<open>
  Claim C9: leader assembly computes the indicator position of every arrow from the
  arrow's shaft and direction alone: for \<open>End\<close> it is the shaft's start point, for \<open>Start\<close>
  the shaft's end point, and for \<open>Both\<close> the midpoint of the two.
\<close>

theorem leader_position_from_shaft:
  assumes "k < length arrows"
  shows "arrow (create_arrow_leaders lines arrows ! k) = arrows ! k \<and>
         leader_position (create_arrow_leaders lines arrows ! k) =
           (case direction (arrows ! k) of
              End \<Rightarrow> start_point (lines ! shaft (arrows ! k))
            | Start \<Rightarrow> end_point (lines ! shaft (arrows ! k))
            | Both \<Rightarrow>
                Point ((px (start_point (lines ! shaft (arrows ! k)))
                        + px (end_point (lines ! shaft (arrows ! k)))) / 2)
                      ((py (start_point (lines ! shaft (arrows ! k)))
                        + py (end_point (lines ! shaft (arrows ! k)))) / 2))"
  using assms by (simp add: create_arrow_leaders_nth get_leader_position_def)

theorem leader_position_from_shaft_witness:
  "(0 :: nat) < length [example_arrow] \<and>
   leader_position (create_arrow_leaders example_lines [example_arrow] ! 0) = Point 10 0"
  using leader_position_from_shaft [of 0 "[example_arrow]" example_lines]
  by (simp add: example_arrow_def example_lines_def)

lemma meeting_step_parallel:
  "are_lines_parallel (lines ! i) (lines ! j) 5 = Inr True \<Longrightarrow>
   meeting_step tol lines lens i m j = Inr m"
  by (simp add: meeting_step_def Let_def)

lemma are_lines_parallel_True:
  "are_lines_parallel line1 line2 t = Inr True \<longleftrightarrow>
   (\<exists>a. angle_between line1 line2 = Inr a \<and> (a < t \<or> a > 180 - t))"
  by (cases "angle_between line1 line2") (auto simp: are_lines_parallel_def)

lemma are_lines_parallel_False:
  "are_lines_parallel line1 line2 t = Inr False \<longleftrightarrow>
   (\<exists>a. angle_between line1 line2 = Inr a \<and> \<not> (a < t \<or> a > 180 - t))"
  by (cases "angle_between line1 line2") (auto simp: are_lines_parallel_def)

text \<open>
  Claim C10: \<^verbatim>\<open>are_lines_parallel\<close> returns true exactly when the angle between the two
  segments is below the threshold or above 180 minus the threshold; in the meeting-point
  pass a pair for which it holds is skipped (the entry of line \<open>i\<close> is left unchanged), so
  every line recorded in a meeting list of line \<open>i\<close> is not parallel to line \<open>i\<close>.
\<close>

theorem parallel_pairs_excluded:
  "(are_lines_parallel line1 line2 t = Inr True \<longleftrightarrow>
      (\<exists>a. angle_between line1 line2 = Inr a \<and> (a < t \<or> a > 180 - t))) \<and>
   (are_lines_parallel (lines ! i) (lines ! j) 5 = Inr True \<longrightarrow>
      meeting_step tol lines lens i m j = Inr m) \<and>
   (meeting_pass tol lines lens [0 ..< length lines] = Inr ms \<and> i < length lines \<and>
    e \<in> set (at_start (ms ! i)) \<union> set (at_end (ms ! i)) \<longrightarrow>
      are_lines_parallel (lines ! i) (lines ! fst e) 5 = Inr False)"
proof (intro conjI impI)
  show "are_lines_parallel line1 line2 t = Inr True \<longleftrightarrow>
      (\<exists>a. angle_between line1 line2 = Inr a \<and> (a < t \<or> a > 180 - t))"
    by (rule are_lines_parallel_True)
  show "meeting_step tol lines lens i m j = Inr m"
    if "are_lines_parallel (lines ! i) (lines ! j) 5 = Inr True"
    using that by (rule meeting_step_parallel)
  show "are_lines_parallel (lines ! i) (lines ! fst e) 5 = Inr False"
    if h: "meeting_pass tol lines lens [0 ..< length lines] = Inr ms \<and> i < length lines \<and>
           e \<in> set (at_start (ms ! i)) \<union> set (at_end (ms ! i))"
  proof -
    from meeting_pass_rows [of tol lines lens "[0 ..< length lines]" ms] h
    have "row_ok tol lines lens i {0 ..< length lines} (ms ! i)" by auto
    with h show ?thesis
      by (auto simp: row_ok_def list_all_iff meets_at_def)
  qed
qed

theorem parallel_pairs_excluded_witness:
  "meeting_pass (1 / 10) example_lines [10, sqrt 5, sqrt 5] [0 ..< length example_lines]
     = Inr example_meeting \<and>
   (0 :: nat) < length example_lines \<and>
   (1, Start) \<in> set (at_start (example_meeting ! 0)) \<union> set (at_end (example_meeting ! 0)) \<and>
   are_lines_parallel (example_lines ! 0) (example_lines ! fst (1 :: nat, Start)) 5 = Inr False"
proof -
  have p: "meeting_pass (1 / 10) example_lines [10, sqrt 5, sqrt 5] [0 ..< length example_lines]
     = Inr example_meeting"
    by (simp only: example_length upt_3 example_meeting_pass example_meeting_def)
  have i: "(0 :: nat) < length example_lines" by simp
  have e: "(1, Start) \<in> set (at_start (example_meeting ! 0)) \<union> set (at_end (example_meeting ! 0))"
    by (simp add: example_meeting_def)
  from parallel_pairs_excluded [where tol = "1 / 10" and lines = example_lines
      and lens = "[10, sqrt 5, sqrt 5]" and ms = example_meeting and i = 0
      and e = "(1, Start)"] p i e
  show ?thesis by blast
qed

lemma closest_prefix:
  "n \<le> length texts \<Longrightarrow>
   (case foldl (closest_step pos md texts) None [0 ..< n] of
      None \<Rightarrow> \<forall>t < n. \<not> text_dist pos texts t < md
    | Some (d, t) \<Rightarrow> t < n \<and> d = text_dist pos texts t \<and> d < md \<and>
        (\<forall>t' < n. text_dist pos texts t' < md \<longrightarrow> d \<le> text_dist pos texts t'))"
proof (induction n)
  case 0
  then show ?case by simp
next
  case (Suc n)
  then have IH: "case foldl (closest_step pos md texts) None [0 ..< n] of
      None \<Rightarrow> \<forall>t < n. \<not> text_dist pos texts t < md
    | Some (d, t) \<Rightarrow> t < n \<and> d = text_dist pos texts t \<and> d < md \<and>
        (\<forall>t' < n. text_dist pos texts t' < md \<longrightarrow> d \<le> text_dist pos texts t')"
    by simp
  let ?r = "foldl (closest_step pos md texts) None [0 ..< n]"
  have e: "foldl (closest_step pos md texts) None [0 ..< Suc n]
           = closest_step pos md texts ?r n"
    by simp
  show ?case
  proof (cases ?r)
    case None
    with IH have "\<forall>t < n. \<not> text_dist pos texts t < md" by simp
    then show ?thesis
      unfolding e None
      by (auto simp: closest_step_def text_dist_def Let_def less_Suc_eq)
  next
    case (Some a)
    obtain d t where a: "a = (d, t)" by (cases a)
    with Some IH have "t < n \<and> d = text_dist pos texts t \<and> d < md \<and>
        (\<forall>t' < n. text_dist pos texts t' < md \<longrightarrow> d \<le> text_dist pos texts t')"
      by auto
    then show ?thesis
      unfolding e Some a
      by (auto simp: closest_step_def text_dist_def Let_def less_Suc_eq)
  qed
qed

lemma find_closest_text_None:
  "find_closest_text pos md texts = None \<Longrightarrow>
   \<forall>t < length texts. \<not> text_dist pos texts t < md"
  using closest_prefix [of "length texts" texts pos md]
  by (simp add: find_closest_text_def)

lemma find_closest_text_Some:
  "find_closest_text pos md texts = Some (d, t) \<Longrightarrow>
   t < length texts \<and> d = text_dist pos texts t \<and> d < md \<and>
   (\<forall>t' < length texts. text_dist pos texts t' < md \<longrightarrow> d \<le> text_dist pos texts t')"
  using closest_prefix [of "length texts" texts pos md]
  by (auto simp: find_closest_text_def)

lemma find_closest_text_cong:
  assumes "length ts' = length ts" and "\<forall>t < length ts. position (ts' ! t) = position (ts ! t)"
  shows "find_closest_text pos md ts' = find_closest_text pos md ts"
proof -
  have "foldl (closest_step pos md ts') a xs = foldl (closest_step pos md ts) a xs"
    if "set xs \<subseteq> {0 ..< length ts}" for a xs
    using that assms(2)
    by (induction xs arbitrary: a) (auto simp: closest_step_def)
  then show ?thesis by (simp add: find_closest_text_def assms(1))
qed

lemma match_leader_inv:
  assumes inv: "match_inv md ls ts n st" and n: "n < length ls"
  shows "match_inv md ls ts (Suc n) (match_leader md st n)"
proof -
  obtain ls' ts' where st: "st = (ls', ts')" by (cases st)
  have len: "length ls' = length ls" "length ts' = length ts"
    and lsn: "\<forall>k < length ls. ls' ! k = (if k < n then set_match md ts (ls ! k) else ls ! k)"
    and tsn: "\<forall>t < length ts. ts' ! t =
         (ts ! t)\<lparr>matched_arrows := matched_arrows (ts ! t) @
            filter (\<lambda>k. chosen_text md ts (ls ! k) = Some t) [0 ..< n]\<rparr>"
    using inv by (simp_all add: match_inv_def st)
  have cur: "ls' ! n = ls ! n" using lsn n by simp
  have "find_closest_text (leader_position (ls ! n)) md ts'
      = find_closest_text (leader_position (ls ! n)) md ts"
    by (rule find_closest_text_cong) (simp_all add: len tsn)
  then have fc: "find_closest_text (leader_position (ls' ! n)) md ts'
      = find_closest_text (leader_position (ls ! n)) md ts"
    by (simp add: cur)
  show ?thesis
  proof (cases "find_closest_text (leader_position (ls ! n)) md ts")
    case None
    then have c: "chosen_text md ts (ls ! n) = None" by (simp add: chosen_text_def)
    have "match_leader md st n = st"
      by (simp add: match_leader_def st fc None)
    moreover have "match_inv md ls ts (Suc n) st"
      using len lsn tsn c
      by (auto simp: match_inv_def st set_match_def less_Suc_eq)
    ultimately show ?thesis by simp
  next
    case (Some a)
    obtain d t where a: "a = (d, t)" by (cases a)
    have c: "chosen_text md ts (ls ! n) = Some t" by (simp add: chosen_text_def Some a)
    have t: "t < length ts" using find_closest_text_Some Some a by blast
    have m: "match_leader md st n =
        (ls'[n := (ls' ! n)\<lparr>matched_text := Some t\<rparr>],
         ts'[t := (ts' ! t)\<lparr>matched_arrows := matched_arrows (ts' ! t) @ [n]\<rparr>])"
      by (simp add: match_leader_def st fc Some a)
    show ?thesis
      unfolding m match_inv_def
      using len lsn tsn c t n cur
      by (auto simp: nth_list_update set_match_def less_Suc_eq)
  qed
qed

lemma match_prefix_inv:
  "n \<le> length ls \<Longrightarrow> match_inv md ls ts n (foldl (match_leader md) (ls, ts) [0 ..< n])"
proof (induction n)
  case 0
  then show ?case by (simp add: match_inv_def)
next
  case (Suc n)
  then show ?case using match_leader_inv [of md ls ts n] by simp
qed

lemma match_texts_inv:
  "match_inv (max_distance (LEADER_ARROW_MATCHING config)) ls ts (length ls)
     (match_texts_to_arrows ls ts config)"
  using match_prefix_inv [of "length ls" ls] by (simp add: match_texts_to_arrows_def)

lemma match_texts_leaders:
  "fst (match_texts_to_arrows ls ts config)
   = map (set_match (max_distance (LEADER_ARROW_MATCHING config)) ts) ls"
  using match_texts_inv [of config ls ts]
  by (intro nth_equalityI) (simp_all add: match_inv_def)

text \<open>
  Claim C5, as amended: text matching assigns to every leader the label of minimum distance
  from the leader's indicator position among the labels whose distance is strictly below
  \<open>max_distance\<close>, and that label records the leader in \<open>matched_arrows\<close>; when no label is
  strictly closer than \<open>max_distance\<close> the leader's \<open>matched_text\<close> is left as it was
  (\<open>None\<close> after leader assembly). Each leader is matched on its own, so several leaders
  may be assigned the same label.
\<close>

theorem text_matching_nearest:
  assumes "k < length ls"
  shows "((\<exists>t < length ts. distance (leader_position (ls ! k)) (position (ts ! t))
                           < max_distance (LEADER_ARROW_MATCHING config)) \<longrightarrow>
          (\<exists>t < length ts.
             matched_text (fst (match_texts_to_arrows ls ts config) ! k) = Some t \<and>
             distance (leader_position (ls ! k)) (position (ts ! t))
               < max_distance (LEADER_ARROW_MATCHING config) \<and>
             (\<forall>t' < length ts.
                distance (leader_position (ls ! k)) (position (ts ! t'))
                  < max_distance (LEADER_ARROW_MATCHING config) \<longrightarrow>
                distance (leader_position (ls ! k)) (position (ts ! t))
                  \<le> distance (leader_position (ls ! k)) (position (ts ! t'))) \<and>
             k \<in> set (matched_arrows (snd (match_texts_to_arrows ls ts config) ! t)))) \<and>
         ((\<forall>t < length ts. \<not> distance (leader_position (ls ! k)) (position (ts ! t))
                              < max_distance (LEADER_ARROW_MATCHING config)) \<longrightarrow>
          matched_text (fst (match_texts_to_arrows ls ts config) ! k) = matched_text (ls ! k))"
proof -
  let ?md = "max_distance (LEADER_ARROW_MATCHING config)"
  let ?r = "match_texts_to_arrows ls ts config"
  let ?pos = "leader_position (ls ! k)"
  have inv: "match_inv ?md ls ts (length ls) ?r" by (rule match_texts_inv)
  have lk: "fst ?r ! k = set_match ?md ts (ls ! k)"
    using inv assms by (simp add: match_inv_def)
  have tk: "snd ?r ! t = (ts ! t)\<lparr>matched_arrows := matched_arrows (ts ! t) @
            filter (\<lambda>k. chosen_text ?md ts (ls ! k) = Some t) [0 ..< length ls]\<rparr>"
    if "t < length ts" for t
    using inv that by (simp add: match_inv_def)
  show ?thesis
  proof (cases "find_closest_text ?pos ?md ts")
    case None
    from find_closest_text_None [OF None]
    have no: "\<forall>t < length ts. \<not> distance ?pos (position (ts ! t)) < ?md"
      by (simp add: text_dist_def)
    have "matched_text (fst ?r ! k) = matched_text (ls ! k)"
      by (simp add: lk set_match_def chosen_text_def None)
    with no show ?thesis by blast
  next
    case (Some a)
    obtain d t where a: "a = (d, t)" by (cases a)
    from find_closest_text_Some [of ?pos ?md ts d t] Some a
    have t: "t < length ts" and d: "distance ?pos (position (ts ! t)) < ?md"
      and least: "\<forall>t' < length ts. distance ?pos (position (ts ! t')) < ?md \<longrightarrow>
                    distance ?pos (position (ts ! t)) \<le> distance ?pos (position (ts ! t'))"
      by (auto simp: text_dist_def)
    have c: "chosen_text ?md ts (ls ! k) = Some t"
      by (simp add: chosen_text_def Some a)
    have mt: "matched_text (fst ?r ! k) = Some t"
      by (simp add: lk set_match_def c)
    have br: "k \<in> set (matched_arrows (snd ?r ! t))"
      using assms c by (simp add: tk [OF t])
    from t d least mt br show ?thesis by blast
  qed
qed

lemma upt_1: "[0 ..< Suc 0] = [0]"
  by simp

lemma upt_2: "[0 ..< Suc (Suc 0)] = [0, Suc 0]"
  by (simp add: upt_rec)

lemma max_distance_CONFIG: "max_distance (LEADER_ARROW_MATCHING CONFIG) = 10"
  by (simp add: CONFIG_def)

lemma dist_5_15: "distance (Point 5 5) (Point 5 15) = 10"
  by (simp add: distance_def sqrt_100)

lemma boundary_label_unmatched:
  "find_closest_text (Point 5 5) 10 [text_at (Point 5 15)] = None"
  by (simp add: find_closest_text_def closest_step_def text_at_def dist_5_15)

theorem label_at_cutoff_not_matched:
  "distance (leader_position (leader_at (Point 5 5))) (position (text_at (Point 5 15)))
     \<le> max_distance (LEADER_ARROW_MATCHING CONFIG) \<and>
   matched_text
     (fst (match_texts_to_arrows [leader_at (Point 5 5)] [text_at (Point 5 15)] CONFIG) ! 0)
     = None"
  by (simp add: match_texts_leaders set_match_def chosen_text_def max_distance_CONFIG
      leader_at_def boundary_label_unmatched)
    (simp add: text_at_def dist_5_15)

lemma two_texts_closest:
  "find_closest_text (Point 5 5) 10 two_texts = Some (1, 0)"
proof -
  have f: "\<not> sqrt 450 < 10"
    using real_le_rsqrt [of 10 450] by simp
  show ?thesis
    by (simp add: find_closest_text_def closest_step_def two_texts_def text_at_def upt_2
        distance_def f)
qed

lemma two_leaders_chosen:
  "chosen_text 10 two_texts (two_leaders ! 0) = Some 0"
  "chosen_text 10 two_texts (two_leaders ! Suc 0) = Some 0"
  by (simp_all add: chosen_text_def two_leaders_def leader_at_def two_texts_closest)

theorem text_matching_nearest_witness:
  "(0 :: nat) < length two_leaders \<and>
   distance (leader_position (two_leaders ! 0)) (position (two_texts ! 0))
     < max_distance (LEADER_ARROW_MATCHING CONFIG) \<and>
   matched_text (fst (match_texts_to_arrows two_leaders two_texts CONFIG) ! 0) = Some 0 \<and>
   matched_text (fst (match_texts_to_arrows two_leaders two_texts CONFIG) ! 1) = Some 0 \<and>
   matched_arrows (snd (match_texts_to_arrows two_leaders two_texts CONFIG) ! 0) = [0, 1]"
proof -
  have l: "(0 :: nat) < length two_leaders" by (simp add: two_leaders_def)
  have d: "distance (leader_position (two_leaders ! 0)) (position (two_texts ! 0))
     < max_distance (LEADER_ARROW_MATCHING CONFIG)"
    by (simp add: two_leaders_def two_texts_def leader_at_def text_at_def distance_def
        max_distance_CONFIG)
  have m0: "matched_text (fst (match_texts_to_arrows two_leaders two_texts CONFIG) ! 0) = Some 0"
    using text_matching_nearest [OF l, of two_texts CONFIG] two_leaders_chosen(1)
    by (simp add: match_texts_leaders max_distance_CONFIG set_match_def two_leaders_def)
  have m1: "matched_text (fst (match_texts_to_arrows two_leaders two_texts CONFIG) ! 1) = Some 0"
    using two_leaders_chosen(2)
    by (simp add: match_texts_leaders max_distance_CONFIG set_match_def two_leaders_def)
  have "match_inv 10 two_leaders two_texts (length two_leaders)
          (match_texts_to_arrows two_leaders two_texts CONFIG)"
    using match_texts_inv [of CONFIG two_leaders two_texts] by (simp add: max_distance_CONFIG)
  then have "snd (match_texts_to_arrows two_leaders two_texts CONFIG) ! 0
      = (two_texts ! 0)\<lparr>matched_arrows := matched_arrows (two_texts ! 0) @
            filter (\<lambda>k. chosen_text 10 two_texts (two_leaders ! k) = Some 0)
              [0 ..< length two_leaders]\<rparr>"
    by (simp add: match_inv_def two_texts_def)
  also have "length two_leaders = Suc (Suc 0)" by (simp add: two_leaders_def)
  finally have b: "matched_arrows (snd (match_texts_to_arrows two_leaders two_texts CONFIG) ! 0)
      = [0, 1]"
    by (simp add: upt_2 two_leaders_chosen) (simp add: two_texts_def text_at_def)
  from l d m0 m1 b show ?thesis by blast
qed

lemma boundary_step_result:
  assumes "boundary_step lines bc al (tip_point a) (lines ! shaft a) st j = Inr st'"
  shows "st' = (if boundary_match lines bc al a j then (fst st @ [j], snd st @ [j]) else st)"
proof (cases "j \<in> al \<or> min (distance (tip_point a) (start_point (lines ! j)))
          (distance (tip_point a) (end_point (lines ! j))) > max_distance_to_arrow bc")
  case True
  then have "\<not> boundary_match lines bc al a j" by (auto simp: boundary_match_def)
  moreover from True assms have "st' = st"
    by (auto simp: boundary_step_def Let_def split: if_splits)
  ultimately show ?thesis by simp
next
  case False
  with assms obtain angle where
    an: "angle_between (lines ! shaft a) (lines ! j) = Inr angle"
    by (cases "angle_between (lines ! shaft a) (lines ! j)")
       (auto simp: boundary_step_def Let_def split: if_splits)
  from False an have
    "boundary_match lines bc al a j \<longleftrightarrow>
       perpendicular_angle_min bc \<le> angle \<and> angle \<le> perpendicular_angle_max bc"
    by (auto simp: boundary_match_def)
  with False an assms show ?thesis
    by (auto simp: boundary_step_def Let_def split: if_splits)
qed

lemma boundary_row_result:
  "boundary_row lines bc al (tip_point a) (lines ! shaft a) js st = Inr st' \<Longrightarrow>
   st' = (fst st @ filter (boundary_match lines bc al a) js,
          snd st @ filter (boundary_match lines bc al a) js)"
proof (induction js arbitrary: st)
  case Nil
  then show ?case by simp
next
  case (Cons j js)
  from Cons.prems obtain st1 where
    s: "boundary_step lines bc al (tip_point a) (lines ! shaft a) st j = Inr st1"
    and r: "boundary_row lines bc al (tip_point a) (lines ! shaft a) js st1 = Inr st'"
    by (auto split: sum.splits)
  from boundary_step_result [OF s] Cons.IH [OF r] show ?case by simp
qed

lemma boundary_pass_result:
  "boundary_pass lines bc al ks st = Inr st' \<Longrightarrow> distinct ks \<Longrightarrow>
   \<forall>k \<in> set ks. k < length (fst st) \<Longrightarrow>
   length (fst st') = length (fst st) \<and>
   (\<forall>k < length (fst st). fst st' ! k =
      (if k \<in> set ks then add_boundaries lines bc al (fst st ! k) else fst st ! k)) \<and>
   snd st' = snd st @ concat (map (\<lambda>k.
      filter (boundary_match lines bc al (arrow (fst st ! k))) [0 ..< length lines]) ks)"
proof (induction ks arbitrary: st)
  case Nil
  then show ?case by simp
next
  case (Cons k ks)
  let ?l = "fst st ! k"
  from Cons.prems(1) obtain r where
    row: "boundary_row lines bc al (tip_point (arrow ?l)) (lines ! shaft (arrow ?l))
            [0 ..< length lines] (matched_boundaries ?l, snd st) = Inr r"
    and rest: "boundary_pass lines bc al ks
            ((fst st)[k := ?l\<lparr>matched_boundaries := fst r\<rparr>], snd r) = Inr st'"
    by (auto simp: Let_def split: sum.splits)
  let ?new = "filter (boundary_match lines bc al (arrow ?l)) [0 ..< length lines]"
  from boundary_row_result [OF row] have r: "r = (matched_boundaries ?l @ ?new, snd st @ ?new)"
    by simp
  let ?st1 = "((fst st)[k := ?l\<lparr>matched_boundaries := fst r\<rparr>], snd r)"
  have upd: "?l\<lparr>matched_boundaries := fst r\<rparr> = add_boundaries lines bc al ?l"
    by (simp add: r add_boundaries_def)
  have k: "k < length (fst st)" "k \<notin> set ks" using Cons.prems(2,3) by auto
  have IH: "length (fst st') = length (fst ?st1) \<and>
   (\<forall>i < length (fst ?st1). fst st' ! i =
      (if i \<in> set ks then add_boundaries lines bc al (fst ?st1 ! i) else fst ?st1 ! i)) \<and>
   snd st' = snd ?st1 @ concat (map (\<lambda>i.
      filter (boundary_match lines bc al (arrow (fst ?st1 ! i))) [0 ..< length lines]) ks)"
    by (rule Cons.IH [OF rest]) (use Cons.prems(2,3) in auto)
  have same: "fst ?st1 ! i = fst st ! i" if "i \<in> set ks" for i
    using that k by (auto simp: nth_list_update)
  have m: "map (\<lambda>i. filter (boundary_match lines bc al (arrow (fst ?st1 ! i)))
             [0 ..< length lines]) ks
         = map (\<lambda>i. filter (boundary_match lines bc al (arrow (fst st ! i)))
             [0 ..< length lines]) ks"
    by (rule map_cong) (simp_all only: same)
  show ?case
  proof (intro conjI allI impI)
    show "length (fst st') = length (fst st)" using IH by simp
    show "fst st' ! i =
      (if i \<in> set (k # ks) then add_boundaries lines bc al (fst st ! i) else fst st ! i)"
      if "i < length (fst st)" for i
      using IH that k upd by (auto simp: nth_list_update)
    show "snd st' = snd st @ concat (map (\<lambda>k.
      filter (boundary_match lines bc al (arrow (fst st ! k))) [0 ..< length lines]) (k # ks))"
      using IH unfolding m by (simp add: r)
  qed
qed

lemma detect_boundary_lines_result:
  assumes "detect_boundary_lines ls lines config = Inr r"
  shows "fst r = map (add_boundaries lines (LEADER_BOUNDARY_MATCHING config) (arrow_lines_of ls)) ls"
    and "snd r = concat (map (\<lambda>l. filter (boundary_match lines (LEADER_BOUNDARY_MATCHING config)
                    (arrow_lines_of ls) (arrow l)) [0 ..< length lines]) ls)"
proof -
  let ?bc = "LEADER_BOUNDARY_MATCHING config" and ?al = "arrow_lines_of ls"
  from assms have p: "boundary_pass lines ?bc ?al [0 ..< length ls] (ls, []) = Inr r"
    by (simp add: detect_boundary_lines_def)
  from boundary_pass_result [OF p] have
    len: "length (fst r) = length ls"
    and nth: "\<forall>k < length ls. fst r ! k = add_boundaries lines ?bc ?al (ls ! k)"
    and bl: "snd r = concat (map (\<lambda>k. filter (boundary_match lines ?bc ?al (arrow (ls ! k)))
                [0 ..< length lines]) [0 ..< length ls])"
    by simp_all
  show "fst r = map (add_boundaries lines ?bc ?al) ls"
    using len nth by (intro nth_equalityI) simp_all
  have "map (\<lambda>k. filter (boundary_match lines ?bc ?al (arrow (ls ! k))) [0 ..< length lines])
          [0 ..< length ls]
      = map (\<lambda>l. filter (boundary_match lines ?bc ?al (arrow l)) [0 ..< length lines]) ls"
    by (intro nth_equalityI) simp_all
  with bl show "snd r = concat (map (\<lambda>l. filter (boundary_match lines ?bc ?al (arrow l))
                   [0 ..< length lines]) ls)"
    by simp
qed

lemma arrow_lines_of_iff:
  "j \<notin> arrow_lines_of ls \<longleftrightarrow>
   (\<forall>l \<in> set ls. j \<noteq> shaft (arrow l) \<and> j \<noteq> left_barb (arrow l) \<and> j \<noteq> right_barb (arrow l))"
  by (auto simp: arrow_lines_of_def)

text \<open>
  Claim C4: boundary line detection appends a segment \<open>j\<close> to the boundary list of leader
  \<open>k\<close> exactly when \<open>j\<close> is not the shaft or a barb of the arrow of any leader, the smaller
  of the distances from the leader's tip point to the two endpoints of \<open>j\<close> is at most
  \<open>max_distance_to_arrow\<close>, and the angle between the leader's shaft and \<open>j\<close> lies in the
  closed interval from \<open>perpendicular_angle_min\<close> to \<open>perpendicular_angle_max\<close>. The
  condition for leader \<open>k\<close> does not depend on what was appended for other leaders, so a
  segment is appended for every leader it qualifies for.
\<close>

theorem boundary_appended_iff:
  assumes "detect_boundary_lines ls lines config = Inr r"
    and "k < length ls" and "j < length lines"
  shows "\<exists>new. matched_boundaries (fst r ! k) = matched_boundaries (ls ! k) @ new \<and>
           distinct new \<and>
           (j \<in> set new \<longleftrightarrow>
              (\<forall>l \<in> set ls. j \<noteq> shaft (arrow l) \<and> j \<noteq> left_barb (arrow l)
                             \<and> j \<noteq> right_barb (arrow l)) \<and>
              min (distance (tip_point (arrow (ls ! k))) (start_point (lines ! j)))
                  (distance (tip_point (arrow (ls ! k))) (end_point (lines ! j)))
                \<le> max_distance_to_arrow (LEADER_BOUNDARY_MATCHING config) \<and>
              (\<exists>angle. angle_between (lines ! shaft (arrow (ls ! k))) (lines ! j) = Inr angle \<and>
                 perpendicular_angle_min (LEADER_BOUNDARY_MATCHING config) \<le> angle \<and>
                 angle \<le> perpendicular_angle_max (LEADER_BOUNDARY_MATCHING config)))"
proof -
  let ?bc = "LEADER_BOUNDARY_MATCHING config" and ?al = "arrow_lines_of ls"
  let ?new = "filter (boundary_match lines ?bc ?al (arrow (ls ! k))) [0 ..< length lines]"
  have "fst r ! k = add_boundaries lines ?bc ?al (ls ! k)"
    using detect_boundary_lines_result(1) [OF assms(1)] assms(2) by simp
  then have 1: "matched_boundaries (fst r ! k) = matched_boundaries (ls ! k) @ ?new"
    by (simp add: add_boundaries_def)
  have 2: "distinct ?new" by simp
  have "j \<in> set ?new \<longleftrightarrow> boundary_match lines ?bc ?al (arrow (ls ! k)) j"
    using assms(3) by simp
  then have 3: "j \<in> set ?new \<longleftrightarrow>
              (\<forall>l \<in> set ls. j \<noteq> shaft (arrow l) \<and> j \<noteq> left_barb (arrow l)
                             \<and> j \<noteq> right_barb (arrow l)) \<and>
              min (distance (tip_point (arrow (ls ! k))) (start_point (lines ! j)))
                  (distance (tip_point (arrow (ls ! k))) (end_point (lines ! j)))
                \<le> max_distance_to_arrow ?bc \<and>
              (\<exists>angle. angle_between (lines ! shaft (arrow (ls ! k))) (lines ! j) = Inr angle \<and>
                 perpendicular_angle_min ?bc \<le> angle \<and> angle \<le> perpendicular_angle_max ?bc)"
    by (simp only: boundary_match_def arrow_lines_of_iff)
  from 1 2 3 show ?thesis by blast
qed

lemma vertical_points [simp]:
  "start_point vertical_seg = Point 0 (- 1)" "end_point vertical_seg = Point 0 1"
  by (simp_all add: vertical_seg_def)

lemma vertical_angle: "angle_between shaft_seg vertical_seg = Inr 90"
proof -
  have "no_overflow vertical_seg" by (rule no_overflow_small) simp_all
  then show ?thesis
    by (simp add: angle_between_eq seg_no_overflow angle_value_def direction_vector_def
        dot_product_def sqrt_100 degrees_def)
qed

lemma upt_4: "[0 ..< 4] = [0, 1, 2, 3]"
  by (simp add: upt_rec)

lemma boundary_example_row:
  "boundary_row boundary_example (LEADER_BOUNDARY_MATCHING CONFIG) {0, 1, 2} (Point 0 0)
     shaft_seg [0, 1, 2, 3] ([], [])
   = Inr ([3], [3])"
  by (simp add: boundary_step_def boundary_example_def vertical_angle distance_def CONFIG_def)

lemma boundary_example_detect:
  "detect_boundary_lines [leader_at (Point 10 0)] boundary_example CONFIG
   = Inr ([(leader_at (Point 10 0))\<lparr>matched_boundaries := [3]\<rparr>], [3])"
proof -
  have al: "arrow_lines_of [leader_at (Point 10 0)] = {0, 1, 2}"
    by (auto simp: arrow_lines_of_def leader_at_def example_arrow_def)
  have l: "length boundary_example = 4" by (simp add: boundary_example_def)
  have s: "boundary_example ! shaft (arrow (leader_at (Point 10 0))) = shaft_seg"
    by (simp add: boundary_example_def leader_at_def example_arrow_def)
  have t: "tip_point (arrow (leader_at (Point 10 0))) = Point 0 0"
    by (simp add: leader_at_def example_arrow_def)
  have m: "matched_boundaries (leader_at (Point 10 0)) = []"
    by (simp add: leader_at_def)
  have p: "[0 ..< length [leader_at (Point 10 0)]] = [0]" by simp
  have "boundary_pass boundary_example (LEADER_BOUNDARY_MATCHING CONFIG) {0, 1, 2} [0]
          ([leader_at (Point 10 0)], [])
        = Inr ([(leader_at (Point 10 0))\<lparr>matched_boundaries := [3]\<rparr>], [3])"
    apply (simp only: boundary_pass.simps Let_def fst_conv snd_conv nth_Cons_0 t s m l upt_4
        boundary_example_row sum.case)
    apply simp
    done
  then show ?thesis
    by (simp only: detect_boundary_lines_def al p)
qed

theorem boundary_appended_iff_witness:
  "detect_boundary_lines [leader_at (Point 10 0)] boundary_example CONFIG
     = Inr ([(leader_at (Point 10 0))\<lparr>matched_boundaries := [3]\<rparr>], [3]) \<and>
   (0 :: nat) < length [leader_at (Point 10 0)] \<and> (3 :: nat) < length boundary_example \<and>
   matched_boundaries
     (fst ([(leader_at (Point 10 0))\<lparr>matched_boundaries := [3]\<rparr>], [3 :: nat]) ! 0) = [3]"
  using boundary_appended_iff [OF boundary_example_detect, of 0 3] boundary_example_detect
  by (simp add: boundary_example_def)

lemma set_match_fields:
  "arrow (set_match md ts l) = arrow l"
  "matched_boundaries (set_match md ts l) = matched_boundaries l"
  "leader_position (set_match md ts l) = leader_position l"
  by (simp_all add: set_match_def split: option.splits)

lemma set_match_boundaries_update:
  "set_match md ts (l\<lparr>matched_boundaries := b\<rparr>) = (set_match md ts l)\<lparr>matched_boundaries := b\<rparr>"
  by (simp add: set_match_def chosen_text_def split: option.splits)

lemma boundary_pass_set_match:
  "\<forall>k \<in> set ks. k < length ls \<Longrightarrow>
   boundary_pass lines bc al ks (map (set_match md ts) ls, bl)
   = (case boundary_pass lines bc al ks (ls, bl) of
        Inl e \<Rightarrow> Inl e
      | Inr r \<Rightarrow> Inr (map (set_match md ts) (fst r), snd r))"
proof (induction ks arbitrary: ls bl)
  case Nil
  then show ?case by simp
next
  case (Cons k ks)
  then have k: "k < length ls" by simp
  let ?l = "ls ! k"
  let ?row = "boundary_row lines bc al (tip_point (arrow ?l)) (lines ! shaft (arrow ?l))
                [0 ..< length lines] (matched_boundaries ?l, bl)"
  show ?case
  proof (cases ?row)
    case (Inl e)
    then show ?thesis using k by (simp add: set_match_fields Let_def)
  next
    case (Inr r)
    have u: "(map (set_match md ts) ls)[k := (set_match md ts ?l)\<lparr>matched_boundaries := fst r\<rparr>]
           = map (set_match md ts) (ls[k := ?l\<lparr>matched_boundaries := fst r\<rparr>])"
      by (simp add: map_update set_match_boundaries_update)
    have "\<forall>i \<in> set ks. i < length (ls[k := ?l\<lparr>matched_boundaries := fst r\<rparr>])"
      using Cons.prems by simp
    from Cons.IH [OF this] Inr k u show ?thesis
      by (simp add: set_match_fields Let_def)
  qed
qed

lemma arrow_lines_of_set_match:
  "arrow_lines_of (map (set_match md ts) ls) = arrow_lines_of ls"
  by (simp add: arrow_lines_of_def set_match_fields comp_def)

lemma detect_boundary_lines_set_match:
  "detect_boundary_lines (map (set_match md ts) ls) lines config
   = (case detect_boundary_lines ls lines config of
        Inl e \<Rightarrow> Inl e
      | Inr r \<Rightarrow> Inr (map (set_match md ts) (fst r), snd r))"
  by (simp add: detect_boundary_lines_def arrow_lines_of_set_match boundary_pass_set_match)

lemma match_texts_texts_cong:
  assumes "length ls' = length ls"
    and "\<forall>k < length ls. leader_position (ls' ! k) = leader_position (ls ! k)"
  shows "snd (match_texts_to_arrows ls' ts config) = snd (match_texts_to_arrows ls ts config)"
proof -
  let ?md = "max_distance (LEADER_ARROW_MATCHING config)"
  have i': "match_inv ?md ls' ts (length ls') (match_texts_to_arrows ls' ts config)"
    and i: "match_inv ?md ls ts (length ls) (match_texts_to_arrows ls ts config)"
    by (rule match_texts_inv)+
  have f: "filter (\<lambda>k. chosen_text ?md ts (ls' ! k) = Some t) [0 ..< length ls]
         = filter (\<lambda>k. chosen_text ?md ts (ls ! k) = Some t) [0 ..< length ls]" for t
    by (rule filter_cong) (use assms(2) in \<open>auto simp: chosen_text_def\<close>)
  from i have len: "length (snd (match_texts_to_arrows ls ts config)) = length ts"
    unfolding match_inv_def by blast
  from i' have len': "length (snd (match_texts_to_arrows ls' ts config)) = length ts"
    unfolding match_inv_def by blast
  show ?thesis
  proof (rule nth_equalityI)
    show "length (snd (match_texts_to_arrows ls' ts config))
        = length (snd (match_texts_to_arrows ls ts config))"
      by (simp only: len len')
    fix t
    assume "t < length (snd (match_texts_to_arrows ls' ts config))"
    then have t: "t < length ts" by (simp only: len')
    from i t have a: "snd (match_texts_to_arrows ls ts config) ! t =
        (ts ! t)\<lparr>matched_arrows := matched_arrows (ts ! t) @
            filter (\<lambda>k. chosen_text ?md ts (ls ! k) = Some t) [0 ..< length ls]\<rparr>"
      unfolding match_inv_def by blast
    from i' t have b: "snd (match_texts_to_arrows ls' ts config) ! t =
        (ts ! t)\<lparr>matched_arrows := matched_arrows (ts ! t) @
            filter (\<lambda>k. chosen_text ?md ts (ls' ! k) = Some t) [0 ..< length ls']\<rparr>"
      unfolding match_inv_def by blast
    show "snd (match_texts_to_arrows ls' ts config) ! t
        = snd (match_texts_to_arrows ls ts config) ! t"
      by (simp only: a b assms(1) f)
  qed
qed

lemma add_boundaries_position:
  "leader_position (add_boundaries lines bc al l) = leader_position l"
  by (simp add: add_boundaries_def)

text \<open>
  Claim C8: running boundary line detection before text matching, as \<^verbatim>\<open>main\<close> does, gives
  the same final leaders (and the same texts and boundary lines) as running text matching
  before boundary line detection. Boundary detection reads the arrows and writes
  \<open>matched_boundaries\<close>; text matching reads the indicator positions and writes
  \<open>matched_text\<close> and \<open>matched_arrows\<close>. When boundary detection raises, both orders end
  with that exception.
\<close>

theorem matching_passes_commute:
  "main_steps_53_54 arrow_leaders lines texts config
   = text_then_boundary arrow_leaders lines texts config"
proof -
  let ?md = "max_distance (LEADER_ARROW_MATCHING config)"
  have tb: "text_then_boundary arrow_leaders lines texts config
      = (case detect_boundary_lines arrow_leaders lines config of
           Inl e \<Rightarrow> Inl e
         | Inr r \<Rightarrow> Inr (map (set_match ?md texts) (fst r),
                         snd (match_texts_to_arrows arrow_leaders texts config), snd r))"
    by (simp add: text_then_boundary_def Let_def match_texts_leaders
        detect_boundary_lines_set_match split: sum.splits)
  show ?thesis
  proof (cases "detect_boundary_lines arrow_leaders lines config")
    case (Inl e)
    then show ?thesis by (simp add: tb main_steps_53_54_def)
  next
    case (Inr b)
    have fb: "fst b = map (add_boundaries lines (LEADER_BOUNDARY_MATCHING config)
                (arrow_lines_of arrow_leaders)) arrow_leaders"
      by (rule detect_boundary_lines_result(1) [OF Inr])
    have "snd (match_texts_to_arrows (fst b) texts config)
        = snd (match_texts_to_arrows arrow_leaders texts config)"
      by (rule match_texts_texts_cong) (simp_all add: fb add_boundaries_position)
    then show ?thesis
      by (simp add: tb main_steps_53_54_def Inr Let_def match_texts_leaders)
  qed
qed

lemma dh_points [simp]:
  "start_point long_seg = Point 0 0" "end_point long_seg = Point 10 0"
  "start_point head1_seg = Point 0 0" "end_point head1_seg = Point 2 1"
  "start_point head2_seg = Point 0 0" "end_point head2_seg = Point 2 (- 1)"
  "start_point head3_seg = Point 8 1" "end_point head3_seg = Point 10 0"
  "start_point head4_seg = Point 8 (- 1)" "end_point head4_seg = Point 10 0"
  by (simp_all add: long_seg_def head1_seg_def head2_seg_def head3_seg_def head4_seg_def)

lemma dh_no_overflow:
  "no_overflow long_seg" "no_overflow head1_seg" "no_overflow head2_seg"
  "no_overflow head3_seg" "no_overflow head4_seg"
  by (rule no_overflow_small; simp)+

lemma dh_lengths: "map length_line double_headed = [10, sqrt 5, sqrt 5, sqrt 5, sqrt 5]"
  by (simp add: double_headed_def length_line_def sqrt_100)

lemma dh_angles:
  "angle_between long_seg head1_seg = Inr barb_angle"
  "angle_between long_seg head2_seg = Inr barb_angle"
  "angle_between long_seg head3_seg = Inr barb_angle"
  "angle_between long_seg head4_seg = Inr barb_angle"
  by (simp_all add: angle_between_eq dh_no_overflow angle_value_barb direction_vector_def
      dot_product_def sqrt_100)

lemma dh_not_parallel:
  "are_lines_parallel long_seg head1_seg 5 = Inr False"
  "are_lines_parallel long_seg head2_seg 5 = Inr False"
  "are_lines_parallel long_seg head3_seg 5 = Inr False"
  "are_lines_parallel long_seg head4_seg 5 = Inr False"
  using barb_angle_bounds by (simp_all add: are_lines_parallel_def dh_angles)

lemma upt_5: "[0 ..< 5] = [0, 1, 2, 3, 4]"
  by (simp add: upt_rec)

lemma dh_length [simp]: "length double_headed = 5"
  by (simp add: double_headed_def)

lemma dh_row0:
  "meeting_row (1 / 10) double_headed [10, sqrt 5, sqrt 5, sqrt 5, sqrt 5] 0 [0, 1, 2, 3, 4]
     \<lparr>at_start = [], at_end = []\<rparr>
   = Inr \<lparr>at_start = [(1, Start), (2, Start)], at_end = [(3, End), (4, End)]\<rparr>"
  by (simp add: meeting_step_def double_headed_def dh_not_parallel distance_def sqrt_cmp)

lemma dh_row_short:
  "i \<in> {1, 2, 3, 4} \<Longrightarrow>
   meeting_row (1 / 10) double_headed [10, sqrt 5, sqrt 5, sqrt 5, sqrt 5] i [0, 1, 2, 3, 4]
     \<lparr>at_start = [], at_end = []\<rparr>
   = Inr \<lparr>at_start = [], at_end = []\<rparr>"
  by (auto simp: meeting_step_def sqrt5_le_10)

lemma dh_rows:
  "meeting_row (1 / 10) double_headed [10, sqrt 5, sqrt 5, sqrt 5, sqrt 5] 1
     [0, 1, 2, 3, 4] \<lparr>at_start = [], at_end = []\<rparr>
   = Inr \<lparr>at_start = [], at_end = []\<rparr>"
  "meeting_row (1 / 10) double_headed [10, sqrt 5, sqrt 5, sqrt 5, sqrt 5] 2
     [0, 1, 2, 3, 4] \<lparr>at_start = [], at_end = []\<rparr>
   = Inr \<lparr>at_start = [], at_end = []\<rparr>"
  "meeting_row (1 / 10) double_headed [10, sqrt 5, sqrt 5, sqrt 5, sqrt 5] 3
     [0, 1, 2, 3, 4] \<lparr>at_start = [], at_end = []\<rparr>
   = Inr \<lparr>at_start = [], at_end = []\<rparr>"
  "meeting_row (1 / 10) double_headed [10, sqrt 5, sqrt 5, sqrt 5, sqrt 5] 4
     [0, 1, 2, 3, 4] \<lparr>at_start = [], at_end = []\<rparr>
   = Inr \<lparr>at_start = [], at_end = []\<rparr>"
  by (rule dh_row_short, simp)+

lemma dh_meeting_pass:
  "meeting_pass (1 / 10) double_headed [10, sqrt 5, sqrt 5, sqrt 5, sqrt 5] [0, 1, 2, 3, 4]
   = Inr dh_meeting"
  by (simp only: meeting_pass.simps dh_length upt_5 dh_row0 dh_rows sum.case dh_meeting_def)

lemma dh_check_start:
  "check_symmetrical_lines long_seg [(Suc 0, Start), (2, Start)] double_headed
     [10, sqrt 5, sqrt 5, sqrt 5, sqrt 5] {} (ARROW_DETECTION CONFIG) = Inr (Some (Suc 0, 2))"
  using barb_angle_bounds
  by (simp add: check_symmetrical_lines_def index_pairs_2 double_headed_def dh_angles
      CONFIG_def)

lemma dh_check_end:
  "check_symmetrical_lines long_seg [(3, End), (4, End)] double_headed
     [10, sqrt 5, sqrt 5, sqrt 5, sqrt 5] {Suc 0, 2} (ARROW_DETECTION CONFIG)
   = Inr (Some (3, 4))"
  using barb_angle_bounds
  by (simp add: check_symmetrical_lines_def index_pairs_2 double_headed_def dh_angles
      CONFIG_def)

lemma dh_classify_step0:
  "classify_step double_headed [10, sqrt 5, sqrt 5, sqrt 5, sqrt 5] dh_meeting
     (ARROW_DETECTION CONFIG) 0 ([], {})
   = Inr ([\<lparr>shaft = 0, left_barb = 1, right_barb = 2, tip_point = Point 0 0,
             direction = Start, arrow_id = None\<rparr>,
           \<lparr>shaft = 0, left_barb = 3, right_barb = 4, tip_point = Point 10 0,
             direction = End, arrow_id = None\<rparr>], {1, 2, 3, 4})"
proof -
  have e: "double_headed ! 0 = long_seg" by (simp add: double_headed_def)
  have s: "insert 2 {Suc 0} = {Suc 0, 2}" by auto
  show ?thesis
    by (simp add: classify_step_def classify_endpoint_def e dh_check_start dh_meeting_def s
        dh_check_end)
      auto
qed

lemma dh_classify_steps:
  "classify_step double_headed [10, sqrt 5, sqrt 5, sqrt 5, sqrt 5] dh_meeting
     (ARROW_DETECTION CONFIG) 1 st = Inr st"
  "classify_step double_headed [10, sqrt 5, sqrt 5, sqrt 5, sqrt 5] dh_meeting
     (ARROW_DETECTION CONFIG) 2 st = Inr st"
  "classify_step double_headed [10, sqrt 5, sqrt 5, sqrt 5, sqrt 5] dh_meeting
     (ARROW_DETECTION CONFIG) 3 st = Inr st"
  "classify_step double_headed [10, sqrt 5, sqrt 5, sqrt 5, sqrt 5] dh_meeting
     (ARROW_DETECTION CONFIG) 4 st = Inr st"
  by (simp_all add: classify_step_def classify_endpoint_def dh_meeting_def)

lemma dh_classify:
  "classify_pass double_headed [10, sqrt 5, sqrt 5, sqrt 5, sqrt 5] dh_meeting
     (ARROW_DETECTION CONFIG) [0, 1, 2, 3, 4] ([], {})
   = Inr ([\<lparr>shaft = 0, left_barb = 1, right_barb = 2, tip_point = Point 0 0,
             direction = Start, arrow_id = None\<rparr>,
           \<lparr>shaft = 0, left_barb = 3, right_barb = 4, tip_point = Point 10 0,
             direction = End, arrow_id = None\<rparr>], {1, 2, 3, 4})"
  by (simp only: classify_pass.simps dh_classify_step0 dh_classify_steps sum.case)

lemma dh_detect: "detect_arrows_in_drawing double_headed CONFIG = Inr dh_arrows"
proof -
  have t: "tip_point_tolerance (ARROW_DETECTION CONFIG) = 1 / 10"
    by (simp add: CONFIG_def)
  have "detect_arrows_in_drawing double_headed CONFIG
      = Inr (assign_arrow_ids [\<lparr>shaft = 0, left_barb = 1, right_barb = 2, tip_point = Point 0 0,
             direction = Start, arrow_id = None\<rparr>,
           \<lparr>shaft = 0, left_barb = 3, right_barb = 4, tip_point = Point 10 0,
             direction = End, arrow_id = None\<rparr>])"
    by (simp only: detect_arrows_in_drawing_def Let_def dh_lengths t dh_length upt_5
        dh_meeting_pass dh_classify sum.case fst_conv)
  then show ?thesis by (simp add: assign_arrow_ids_def upt_rec dh_arrows_def)
qed

text \<open>
  The barbs of the two arrows of the double-headed run: the second arrow is accepted with
  \<^verbatim>\<open>used_barbs\<close> holding the barbs 1 and 2 of the first, and its own barbs 3 and 4 are
  different segments.
\<close>

theorem barbs_exclusive_witness:
  "detect_arrows_in_drawing double_headed CONFIG = Inr dh_arrows \<and>
   length dh_arrows = 2 \<and>
   concat (map (\<lambda>a. [left_barb a, right_barb a]) dh_arrows) = [1, 2, 3, 4] \<and>
   distinct (concat (map (\<lambda>a. [left_barb a, right_barb a]) dh_arrows))"
proof -
  have "length dh_arrows = 2"
    and "concat (map (\<lambda>a. [left_barb a, right_barb a]) dh_arrows) = [1, 2, 3, 4]"
    by (simp_all add: dh_arrows_def)
  with barbs_exclusive [OF dh_detect] dh_detect show ?thesis by blast
qed

text \<open>
  A double-headed arrow: a shaft from \<open>(0,0)\<close> to \<open>(10,0)\<close> with two barbs at each end.
  Detection returns two arrows with the same shaft, one per endpoint, so segment 0 occupies
  two positions of the arrow list.
\<close>

theorem shaft_of_two_arrows:
  "detect_arrows_in_drawing
     [\<lparr>start_point = Point 0 0, end_point = Point 10 0\<rparr>,
      \<lparr>start_point = Point 0 0, end_point = Point 2 1\<rparr>,
      \<lparr>start_point = Point 0 0, end_point = Point 2 (- 1)\<rparr>,
      \<lparr>start_point = Point 8 1, end_point = Point 10 0\<rparr>,
      \<lparr>start_point = Point 8 (- 1), end_point = Point 10 0\<rparr>] CONFIG
   = Inr [\<lparr>shaft = 0, left_barb = 1, right_barb = 2, tip_point = Point 0 0,
            direction = Start, arrow_id = Some 1\<rparr>,
          \<lparr>shaft = 0, left_barb = 3, right_barb = 4, tip_point = Point 10 0,
            direction = End, arrow_id = Some 2\<rparr>] \<and>
   \<not> distinct (concat (map (\<lambda>a. [shaft a, left_barb a, right_barb a])
          [\<lparr>shaft = 0, left_barb = 1, right_barb = 2, tip_point = Point 0 0,
             direction = Start, arrow_id = Some 1\<rparr>,
           \<lparr>shaft = 0, left_barb = 3, right_barb = 4, tip_point = Point 10 0,
             direction = End, arrow_id = Some 2\<rparr>]))"
  using dh_detect
  by (simp add: double_headed_def long_seg_def head1_seg_def head2_seg_def head3_seg_def
      head4_seg_def dh_arrows_def)

lemma detect_directions:
  assumes "detect_arrows_in_drawing lines config = Inr arrows" and "a \<in> set arrows"
  shows "direction a = Start \<or> direction a = End"
  using detect_arrow_inv [OF assms] by (simp add: arrow_inv_def Let_def)

lemma detect_shaft_not_barb:
  assumes "detect_arrows_in_drawing lines config = Inr arrows" and "a \<in> set arrows"
  shows "shaft a \<noteq> left_barb a \<and> shaft a \<noteq> right_barb a"
  using detect_arrow_inv [OF assms] unfolding arrow_inv_def Let_def by metis

lemma detect_shaft_count:
  assumes "detect_arrows_in_drawing lines config = Inr arrows"
  shows "length (filter (\<lambda>a. shaft a = s) arrows) \<le> 2"
proof -
  let ?xs = "filter (\<lambda>a. shaft a = s) arrows"
  have "distinct (map (\<lambda>a. (shaft a, direction a)) ?xs)"
    using detect_shaft_direction_distinct [OF assms] by (rule distinct_map_filter)
  then have d: "distinct ?xs" and inj: "inj_on (\<lambda>a. (shaft a, direction a)) (set ?xs)"
    by (simp_all add: distinct_map)
  have "inj_on direction (set ?xs)"
    using inj by (auto simp: inj_on_def)
  with d have dd: "distinct (map direction ?xs)" by (simp add: distinct_map)
  have "set (map direction ?xs) \<subseteq> {Start, End}"
    using detect_directions [OF assms] by auto
  then have "card (set (map direction ?xs)) \<le> card {Start, End}"
    by (intro card_mono) simp_all
  also have "card {Start, End} = 2" by simp
  finally have c: "card (set (map direction ?xs)) \<le> 2" .
  have "length ?xs = length (map direction ?xs)" by simp
  also have "\<dots> = card (set (map direction ?xs))"
    using distinct_card [OF dd] by simp
  finally show ?thesis using c by simp
qed

text \<open>
  Claim C2, as amended: in one run of arrow detection no segment appears more than once
  among the left-barb and right-barb positions of the returned arrows, the shaft of an arrow
  differs from both of its barbs, and no two arrows have the same shaft and direction, so
  that a segment is the shaft of at most two arrows (one per endpoint). Only barbs are
  marked as used: the shaft of one arrow may be the shaft of a second arrow.
\<close>

theorem segment_roles:
  assumes "detect_arrows_in_drawing lines config = Inr arrows"
  shows "distinct (concat (map (\<lambda>a. [left_barb a, right_barb a]) arrows)) \<and>
         (\<forall>a \<in> set arrows. shaft a \<noteq> left_barb a \<and> shaft a \<noteq> right_barb a) \<and>
         distinct (map (\<lambda>a. (shaft a, direction a)) arrows) \<and>
         length (filter (\<lambda>a. shaft a = s) arrows) \<le> 2"
proof -
  have "distinct (concat (map (\<lambda>a. [left_barb a, right_barb a]) arrows))"
    using detect_barbs_distinct [OF assms] by (simp add: barbs_of_def)
  moreover have "\<forall>a \<in> set arrows. shaft a \<noteq> left_barb a \<and> shaft a \<noteq> right_barb a"
    using detect_shaft_not_barb [OF assms] by blast
  moreover note detect_shaft_direction_distinct [OF assms] detect_shaft_count [OF assms, of s]
  ultimately show ?thesis by blast
qed

theorem segment_roles_witness:
  "detect_arrows_in_drawing double_headed CONFIG = Inr dh_arrows \<and>
   distinct (concat (map (\<lambda>a. [left_barb a, right_barb a]) dh_arrows)) \<and>
   distinct (map (\<lambda>a. (shaft a, direction a)) dh_arrows) \<and>
   length (filter (\<lambda>a. shaft a = 0) dh_arrows) \<le> 2"
  using segment_roles [OF dh_detect, of 0] dh_detect by blast

end
